theory Spec2Isabelle
  imports Main "HOL-Library.Sublist"
begin

section \<open>Values, locations and requests\<close>

text \<open>
  The router of \<^verbatim>\<open>src/sandbox/router/api.ts\<close> works on JavaScript values whose
  run-time shape it tests itself (\<^verbatim>\<open>isString\<close>, \<^verbatim>\<open>isFunction\<close>,
  \<^verbatim>\<open>isPlainObject\<close>, \<^verbatim>\<open>=== true\<close>, \<^verbatim>\<open>!== false\<close>, \<^verbatim>\<open>??\<close>).
  A function value is its reference; a plain object carries its reference and its own
  properties, and its prototype is \<^verbatim>\<open>Object.prototype\<close>.
\<close>

datatype js_value =
    JUndefined
  | JNull
  | JBool bool
  | JNum int
  | JStr string
  | JFunction nat
  | JObject nat "(string \<times> js_value) list"
  | JArray "js_value list"

datatype js_error = TypeError | GuardException nat

text \<open>The outcome of a call: it returns, or it throws; the state reached is kept in both cases.\<close>

datatype 'a completion = Returned 'a | Thrown js_error 'a

fun state_of :: "'a completion \<Rightarrow> 'a" where
  "state_of (Returned s) = s"
| "state_of (Thrown e s) = s"

fun has_returned :: "'a completion \<Rightarrow> bool" where
  "has_returned (Returned s) = True"
| "has_returned (Thrown e s) = False"

record MicroLocation =
  pathname :: string
  search :: string
  hash :: string

type_synonym GuardLocation = MicroLocation

text \<open>\<^verbatim>\<open>pathname + search + hash\<close>, as lines 58, 61 and 74 compute it.\<close>

definition full_path :: "MicroLocation \<Rightarrow> string" where
  "full_path l = pathname l @ search l @ hash l"

text \<open>
  A \<^verbatim>\<open>RouterTarget\<close>. The fields are the run-time values of \<^verbatim>\<open>to.name\<close>,
  \<^verbatim>\<open>to.path\<close>, \<^verbatim>\<open>to.state\<close> and \<^verbatim>\<open>to.replace\<close>; an absent field is
  \<open>JUndefined\<close>.
\<close>

record RouterTarget =
  target_name :: js_value
  target_path :: js_value
  target_state :: js_value
  target_replace :: js_value

datatype history_method = pushState | replaceState

record sandbox =
  proxyLocation :: MicroLocation

record app =
  url :: string
  sandBox :: "sandbox option"

record HandleMicroPathResult =
  fullPath :: string
  searchHash :: string

section \<open>Calls to collaborators and the router state\<close>

datatype guard_args =
    GlobalArgs string GuardLocation GuardLocation
  | KeyedArgs GuardLocation GuardLocation

text \<open>
  Every call that leaves the module is recorded, in order. A guard invocation records the
  function called, its arguments, and the ledger \<^verbatim>\<open>router.current\<close> as it stands when
  the guard is entered. A call of a function that a keyed guard inherits from
  \<^verbatim>\<open>Object.prototype\<close> records the member's name and the arguments.
\<close>

datatype effect =
    LogError string
  | ProxyHistory string history_method js_value string
  | DispatchPopState string
  | NativeHistory history_method string js_value
  | GuardCall nat guard_args "string \<Rightarrow> GuardLocation option"
  | InheritedCall string guard_args

datatype idle_task = AfterGuardsTask string GuardLocation GuardLocation

record 'w router_state =
  current :: "string \<Rightarrow> GuardLocation option"
  beforeGuards :: "js_value list"
  afterGuards :: "js_value list"
  idleQueue :: "idle_task list"
  effects :: "effect list"
  world :: 'w

text \<open>
  The functions imported from \<^verbatim>\<open>./core\<close>, \<^verbatim>\<open>./event\<close>, \<^verbatim>\<open>./history\<close>,
  \<^verbatim>\<open>../../create_app\<close> and \<^verbatim>\<open>../../micro_app\<close>, and \<^verbatim>\<open>formatAppName\<close> and
  \<^verbatim>\<open>createURL\<close> of \<^verbatim>\<open>../../libs/utils\<close>, are parameters. \<open>'w\<close> is the state they
  own (the host URL and History, the application registry, the sandboxes). Readers take it;
  the three writers transform it.
  \<open>createURL\<close> wraps the \<^verbatim>\<open>URL\<close> constructor, which throws on an unparsable input.
  \<open>guard_raises n\<close> tells whether the body of the guard function \<open>n\<close> throws.
\<close>

record 'w collaborators =
  formatAppName :: "js_value \<Rightarrow> string"
  appInstanceMap_get :: "'w \<Rightarrow> string \<Rightarrow> app option"
  getActiveApps :: "'w \<Rightarrow> string list"
  createURL :: "string \<Rightarrow> string \<Rightarrow> js_error + MicroLocation"
  location_origin :: "'w \<Rightarrow> string"
  getMicroPathFromURL :: "'w \<Rightarrow> string \<Rightarrow> string option"
  setMicroPathToURL :: "'w \<Rightarrow> string \<Rightarrow> MicroLocation \<Rightarrow> HandleMicroPathResult"
  setMicroState :: "string \<Rightarrow> js_value \<Rightarrow> js_value \<Rightarrow> string \<Rightarrow> string \<Rightarrow> js_value"
  rawHistoryState :: "'w \<Rightarrow> js_value"
  proxyHistory :: "string \<Rightarrow> history_method \<Rightarrow> js_value \<Rightarrow> string \<Rightarrow> 'w \<Rightarrow> 'w"
  dispatchPopStateEventToMicroApp :: "string \<Rightarrow> 'w \<Rightarrow> 'w"
  nativeHistoryNavigate :: "history_method \<Rightarrow> string \<Rightarrow> js_value \<Rightarrow> 'w \<Rightarrow> 'w"
  guard_raises :: "nat \<Rightarrow> bool"

definition perform :: "effect \<Rightarrow> ('w \<Rightarrow> 'w) \<Rightarrow> 'w router_state \<Rightarrow> 'w router_state" where
  "perform e f st = st\<lparr>effects := effects st @ [e], world := f (world st)\<rparr>"

text \<open>
  Modelled from the spec: \<^verbatim>\<open>logError\<close>, \<^verbatim>\<open>isString\<close>, \<^verbatim>\<open>isFunction\<close> and
  \<^verbatim>\<open>isPlainObject\<close> of \<^verbatim>\<open>libs/utils\<close> are not in the source at hand. A failure is
  "reported (not thrown) with a descriptive message"; the three tests are those of the
  run-time type: "\<open>request.path\<close> is a string", a guard is "a function" or "a keyed mapping".
\<close>

definition logError :: "string \<Rightarrow> 'w router_state \<Rightarrow> 'w router_state" where
  "logError msg st = perform (LogError msg) (\<lambda>w. w) st"

fun isString :: "js_value \<Rightarrow> bool" where
  "isString (JStr s) = True"
| "isString v = False"

fun isFunction :: "js_value \<Rightarrow> bool" where
  "isFunction (JFunction n) = True"
| "isFunction v = False"

fun isPlainObject :: "js_value \<Rightarrow> bool" where
  "isPlainObject (JObject r ps) = True"
| "isPlainObject v = False"

text \<open>\<^verbatim>\<open>'' + path\<close> of a value that passed \<^verbatim>\<open>isString\<close>.\<close>

fun string_of :: "js_value \<Rightarrow> string" where
  "string_of (JStr s) = s"
| "string_of v = []"

text \<open>\<^verbatim>\<open>to.state ?? null\<close>\<close>

definition state_or_null :: "js_value \<Rightarrow> js_value" where
  "state_or_null v = (if v = JUndefined \<or> v = JNull then JNull else v)"

section \<open>router.push and router.replace\<close>

definition closed_message :: "string \<Rightarrow> string" where
  "closed_message appName = ''navigation failed, sandBox of app '' @ appName @ '' is closed''"

definition required_message :: "bool \<Rightarrow> string" where
  "required_message replace =
     ''navigation failed, name & path are required when use router.''
       @ (if replace then ''replace'' else ''push'')"

text \<open>Lines 56 to 66: the application is in \<^verbatim>\<open>getActiveApps()\<close>.\<close>

definition navigate_active ::
  "'w collaborators \<Rightarrow> bool \<Rightarrow> RouterTarget \<Rightarrow> string \<Rightarrow> app option
     \<Rightarrow> 'w router_state \<Rightarrow> 'w router_state completion" where
  "navigate_active env replace to appName app_opt st =
     (case app_opt of
        None \<Rightarrow> Thrown TypeError st
      | Some a \<Rightarrow>
          (case sandBox a of
             None \<Rightarrow> Thrown TypeError st
           | Some sb \<Rightarrow>
               (let microLocation = proxyLocation sb;
                    currentFullPath = pathname microLocation @ search microLocation @ hash microLocation
                in case createURL env (string_of (target_path to)) (url a) of
                     Inl e \<Rightarrow> Thrown e st
                   | Inr targetLocation \<Rightarrow>
                       (let targetPath = pathname targetLocation @ search targetLocation
                                           @ hash targetLocation
                        in if currentFullPath \<noteq> targetPath then
                             (let methodName =
                                    (if (replace \<and> target_replace to \<noteq> JBool False)
                                          \<or> target_replace to = JBool True
                                     then replaceState else pushState);
                                  st1 = perform
                                          (ProxyHistory appName methodName
                                             (state_or_null (target_state to)) targetPath)
                                          (proxyHistory env appName methodName
                                             (state_or_null (target_state to)) targetPath) st
                              in Returned
                                   (perform (DispatchPopState appName)
                                      (dispatchPopStateEventToMicroApp env appName) st1))
                           else Returned st))))"

text \<open>Lines 73 to 88: the application does not exist or is unmounted.\<close>

definition navigate_inactive ::
  "'w collaborators \<Rightarrow> RouterTarget \<Rightarrow> string \<Rightarrow> 'w router_state
     \<Rightarrow> 'w router_state completion" where
  "navigate_inactive env to appName st =
     (case createURL env (string_of (target_path to)) (location_origin env (world st)) of
        Inl e \<Rightarrow> Thrown e st
      | Inr targetLocation \<Rightarrow>
          (let targetPath = pathname targetLocation @ search targetLocation @ hash targetLocation
           in if getMicroPathFromURL env (world st) appName \<noteq> Some targetPath then
                (let setMicroPathResult = setMicroPathToURL env (world st) appName targetLocation;
                     methodName = (if target_replace to = JBool False then pushState
                                   else replaceState);
                     newState = setMicroState env appName (rawHistoryState env (world st))
                                  (state_or_null (target_state to))
                                  (location_origin env (world st))
                                  (searchHash setMicroPathResult)
                 in Returned
                      (perform (NativeHistory methodName (fullPath setMicroPathResult) newState)
                         (nativeHistoryNavigate env methodName (fullPath setMicroPathResult)
                            newState) st))
              else Returned st))"

definition createNavigationMethod ::
  "'w collaborators \<Rightarrow> bool \<Rightarrow> RouterTarget \<Rightarrow> 'w router_state
     \<Rightarrow> 'w router_state completion" where
  "createNavigationMethod env replace to st =
     (let appName = formatAppName env (target_name to)
      in if appName \<noteq> [] \<and> isString (target_path to) then
           (let app_opt = appInstanceMap_get env (world st) appName
            in if (case app_opt of None \<Rightarrow> False | Some a \<Rightarrow> sandBox a = None) then
                 Returned (logError (closed_message appName) st)
               else if appName \<in> set (getActiveApps env (world st)) then
                 navigate_active env replace to appName app_opt st
               else navigate_inactive env to appName st)
         else Returned (logError (required_message replace) st))"

text \<open>Lines 157 and 158: \<^verbatim>\<open>push: createNavigationMethod(false)\<close>,
  \<^verbatim>\<open>replace: createNavigationMethod(true)\<close>.\<close>

definition router_push ::
  "'w collaborators \<Rightarrow> RouterTarget \<Rightarrow> 'w router_state \<Rightarrow> 'w router_state completion" where
  "router_push env = createNavigationMethod env False"

definition router_replace ::
  "'w collaborators \<Rightarrow> RouterTarget \<Rightarrow> 'w router_state \<Rightarrow> 'w router_state completion" where
  "router_replace env = createNavigationMethod env True"

section \<open>The guard pipeline\<close>

text \<open>
  The functions every plain object inherits from \<^verbatim>\<open>Object.prototype\<close>
  (\<^verbatim>\<open>__proto__\<close> is inherited too, but it reads as an object, not as a function).
\<close>

definition object_prototype_functions :: "string list" where
  "object_prototype_functions =
     [''constructor'', ''hasOwnProperty'', ''isPrototypeOf'', ''propertyIsEnumerable'',
      ''toLocaleString'', ''toString'', ''valueOf'', ''__defineGetter__'', ''__defineSetter__'',
      ''__lookupGetter__'', ''__lookupSetter__'']"

text \<open>
  \<^verbatim>\<open>guard[appName]\<close> on a value that passed \<^verbatim>\<open>isPlainObject\<close>: the guard's own
  property of that name when it has one, else the function of that name inherited from
  \<^verbatim>\<open>Object.prototype\<close> when there is one, else nothing that is a function.
\<close>

datatype property = Own js_value | Inherited string | Absent

fun member :: "js_value \<Rightarrow> string \<Rightarrow> property" where
  "member (JObject r ps) k =
     (case map_of ps k of
        Some v \<Rightarrow> Own v
      | None \<Rightarrow> if k \<in> set object_prototype_functions then Inherited k else Absent)"
| "member v k = Absent"

text \<open>\<^verbatim>\<open>isFunction(guard[appName])\<close>\<close>

fun isFunction_property :: "property \<Rightarrow> bool" where
  "isFunction_property (Own v) = isFunction v"
| "isFunction_property (Inherited name) = True"
| "isFunction_property Absent = False"

text \<open>
  An inherited function called as \<^verbatim>\<open>guard[appName](to, from)\<close>:
  \<^verbatim>\<open>__defineGetter__\<close> and \<^verbatim>\<open>__defineSetter__\<close> throw a \<^verbatim>\<open>TypeError\<close>, since their
  second argument, a location, is not callable; the others return.
\<close>

definition inherited_throws :: "string \<Rightarrow> bool" where
  "inherited_throws name = (name = ''__defineGetter__'' \<or> name = ''__defineSetter__'')"

text \<open>
  Calling a value: a function is entered (the call is recorded with the ledger it sees) and
  its body returns or throws; calling anything else is a \<^verbatim>\<open>TypeError\<close>. The body of
  a guard is code from outside the module. It is not followed into the router: it leaves the
  ledger, the two sets of guards and the queue of idle callbacks as they are.
\<close>

definition invoke ::
  "'w collaborators \<Rightarrow> js_value \<Rightarrow> guard_args \<Rightarrow> 'w router_state
     \<Rightarrow> 'w router_state completion" where
  "invoke env f args st =
     (case f of
        JFunction n \<Rightarrow>
          (let st1 = st\<lparr>effects := effects st @ [GuardCall n args (current st)]\<rparr>
           in if guard_raises env n then Thrown (GuardException n) st1 else Returned st1)
      | _ \<Rightarrow> Thrown TypeError st)"

text \<open>\<^verbatim>\<open>guard[appName](to, from)\<close>\<close>

definition call_property ::
  "'w collaborators \<Rightarrow> property \<Rightarrow> guard_args \<Rightarrow> 'w router_state
     \<Rightarrow> 'w router_state completion" where
  "call_property env p args st =
     (case p of
        Own f \<Rightarrow> invoke env f args st
      | Inherited name \<Rightarrow>
          (let st1 = st\<lparr>effects := effects st @ [InheritedCall name args]\<rparr>
           in if inherited_throws name then Thrown TypeError st1 else Returned st1)
      | Absent \<Rightarrow> Thrown TypeError st)"

text \<open>Lines 113 to 126. The \<^verbatim>\<open>Set\<close> is iterated in insertion order.\<close>

fun runGuards ::
  "'w collaborators \<Rightarrow> string \<Rightarrow> GuardLocation \<Rightarrow> GuardLocation \<Rightarrow> js_value list
     \<Rightarrow> 'w router_state \<Rightarrow> 'w router_state completion" where
  "runGuards env appName to frm [] st = Returned st"
| "runGuards env appName to frm (guard # guards) st =
     (if isFunction guard then
        (case invoke env guard (GlobalArgs appName to frm) st of
           Thrown e st1 \<Rightarrow> Thrown e st1
         | Returned st1 \<Rightarrow> runGuards env appName to frm guards st1)
      else if isPlainObject guard \<and> isFunction_property (member guard appName) then
        (case call_property env (member guard appName) (KeyedArgs to frm) st of
           Thrown e st1 \<Rightarrow> Thrown e st1
         | Returned st1 \<Rightarrow> runGuards env appName to frm guards st1)
      else runGuards env appName to frm guards st)"

text \<open>
  One pass of the loop over an entry, read off lines 120 to 124 as a function of the entry
  and the ledger: the call it makes, if any, and the error when that call throws.
\<close>

definition guard_step ::
  "'w collaborators \<Rightarrow> string \<Rightarrow> GuardLocation \<Rightarrow> GuardLocation \<Rightarrow> js_value
     \<Rightarrow> (string \<Rightarrow> GuardLocation option) \<Rightarrow> (effect \<times> js_error option) option" where
  "guard_step env appName to frm guard led =
     (if isFunction guard then
        (case guard of
           JFunction n \<Rightarrow>
             Some (GuardCall n (GlobalArgs appName to frm) led,
                   if guard_raises env n then Some (GuardException n) else None)
         | _ \<Rightarrow> None)
      else if isPlainObject guard then
        (case member guard appName of
           Own (JFunction n) \<Rightarrow>
             Some (GuardCall n (KeyedArgs to frm) led,
                   if guard_raises env n then Some (GuardException n) else None)
         | Own v \<Rightarrow> None
         | Inherited name \<Rightarrow>
             Some (InheritedCall name (KeyedArgs to frm),
                   if inherited_throws name then Some TypeError else None)
         | Absent \<Rightarrow> None)
      else None)"

text \<open>
  Modelled from the spec: \<^verbatim>\<open>requestIdleCallback\<close> of \<^verbatim>\<open>libs/utils\<close> is not in the
  source at hand. The callback is "deferred", it runs "later on an idle slice of the same
  single thread" and is "never cancelled once scheduled": the call only queues it.
\<close>

definition requestIdleCallback :: "idle_task \<Rightarrow> 'w router_state \<Rightarrow> 'w router_state" where
  "requestIdleCallback task st = st\<lparr>idleQueue := idleQueue st @ [task]\<rparr>"

text \<open>Lines 134 to 146.\<close>

definition executeNavigationGuard ::
  "'w collaborators \<Rightarrow> string \<Rightarrow> GuardLocation \<Rightarrow> GuardLocation \<Rightarrow> 'w router_state
     \<Rightarrow> 'w router_state completion" where
  "executeNavigationGuard env appName to frm st =
     (let st1 = st\<lparr>current := (current st)(appName \<mapsto> to)\<rparr>
      in case runGuards env appName to frm (beforeGuards st1) st1 of
           Thrown e st2 \<Rightarrow> Thrown e st2
         | Returned st2 \<Rightarrow> Returned (requestIdleCallback (AfterGuardsTask appName to frm) st2))"

text \<open>
  The idle slice: the engine takes the oldest queued callback and runs its body, line 144,
  which reads \<^verbatim>\<open>afterGuards.list()\<close> at that moment.
\<close>

definition run_idle_callback ::
  "'w collaborators \<Rightarrow> 'w router_state \<Rightarrow> 'w router_state completion" where
  "run_idle_callback env st =
     (case idleQueue st of
        [] \<Rightarrow> Returned st
      | AfterGuardsTask appName to frm # rest \<Rightarrow>
          runGuards env appName to frm (afterGuards st) (st\<lparr>idleQueue := rest\<rparr>))"

text \<open>Lines 148 to 150.\<close>

definition clearCurrentWhenUnmount :: "string \<Rightarrow> 'w router_state \<Rightarrow> 'w router_state" where
  "clearCurrentWhenUnmount appName st = st\<lparr>current := (current st)(appName := None)\<rparr>"

text \<open>
  Modelled from the spec: \<^verbatim>\<open>useCallbacks\<close> of \<^verbatim>\<open>libs/utils\<close> is not in the source at
  hand. Guards "are stored in an insertion-ordered set; registering the same guard reference
  twice is a no-op (idempotent registration), and a registration call returns an unregister
  capability". The set is a list without repetition, oldest first; the capability is the
  closure over the hook and the guard.
\<close>

definition callbacks_add :: "js_value \<Rightarrow> js_value list \<Rightarrow> js_value list" where
  "callbacks_add g gs = (if g \<in> set gs then gs else gs @ [g])"

definition callbacks_delete :: "js_value \<Rightarrow> js_value list \<Rightarrow> js_value list" where
  "callbacks_delete g gs = removeAll g gs"

datatype hook = BeforeHook | AfterHook

datatype unregister = Unregister hook js_value

text \<open>Lines 162 and 163: \<^verbatim>\<open>beforeEach: beforeGuards.add\<close>, \<^verbatim>\<open>afterEach: afterGuards.add\<close>.\<close>

definition beforeEach :: "js_value \<Rightarrow> 'w router_state \<Rightarrow> unregister \<times> 'w router_state" where
  "beforeEach g st = (Unregister BeforeHook g, st\<lparr>beforeGuards := callbacks_add g (beforeGuards st)\<rparr>)"

definition afterEach :: "js_value \<Rightarrow> 'w router_state \<Rightarrow> unregister \<times> 'w router_state" where
  "afterEach g st = (Unregister AfterHook g, st\<lparr>afterGuards := callbacks_add g (afterGuards st)\<rparr>)"

fun call_unregister :: "unregister \<Rightarrow> 'w router_state \<Rightarrow> 'w router_state" where
  "call_unregister (Unregister BeforeHook g) st =
     st\<lparr>beforeGuards := callbacks_delete g (beforeGuards st)\<rparr>"
| "call_unregister (Unregister AfterHook g) st =
     st\<lparr>afterGuards := callbacks_delete g (afterGuards st)\<rparr>"

section \<open>Sequences of router operations\<close>

datatype router_op =
    Push RouterTarget
  | Replace RouterTarget
  | ExecuteNavigationGuard string GuardLocation GuardLocation
  | ClearCurrentWhenUnmount string
  | BeforeEach js_value
  | AfterEach js_value
  | CallUnregister unregister
  | IdleCallback

fun run_op :: "'w collaborators \<Rightarrow> router_op \<Rightarrow> 'w router_state \<Rightarrow> 'w router_state" where
  "run_op env (Push t) st = state_of (router_push env t st)"
| "run_op env (Replace t) st = state_of (router_replace env t st)"
| "run_op env (ExecuteNavigationGuard a to frm) st = state_of (executeNavigationGuard env a to frm st)"
| "run_op env (ClearCurrentWhenUnmount a) st = clearCurrentWhenUnmount a st"
| "run_op env (BeforeEach g) st = snd (beforeEach g st)"
| "run_op env (AfterEach g) st = snd (afterEach g st)"
| "run_op env (CallUnregister u) st = call_unregister u st"
| "run_op env IdleCallback st = state_of (run_idle_callback env st)"

fun run_ops :: "'w collaborators \<Rightarrow> router_op list \<Rightarrow> 'w router_state \<Rightarrow> 'w router_state" where
  "run_ops env [] st = st"
| "run_ops env (op # ops) st = run_ops env ops (run_op env op st)"

text \<open>The calls recorded in \<open>st'\<close> after those of \<open>st\<close>.\<close>

definition new_effects :: "'w router_state \<Rightarrow> 'w router_state \<Rightarrow> effect list" where
  "new_effects st st' = drop (length (effects st)) (effects st')"

section \<open>Reading the record of calls\<close>

fun is_real_history :: "effect \<Rightarrow> bool" where
  "is_real_history (NativeHistory m p s) = True"
| "is_real_history e = False"

fun is_virtual_history :: "effect \<Rightarrow> bool" where
  "is_virtual_history (ProxyHistory a m s p) = True"
| "is_virtual_history e = False"

fun is_notification :: "effect \<Rightarrow> bool" where
  "is_notification (DispatchPopState a) = True"
| "is_notification e = False"

fun virtual_methods :: "effect list \<Rightarrow> history_method list" where
  "virtual_methods [] = []"
| "virtual_methods (ProxyHistory a m s p # es) = m # virtual_methods es"
| "virtual_methods (e # es) = virtual_methods es"

fun real_methods :: "effect list \<Rightarrow> history_method list" where
  "real_methods [] = []"
| "real_methods (NativeHistory m p s # es) = m # real_methods es"
| "real_methods (e # es) = real_methods es"

text \<open>
  The guard invocations of a record of calls: which guard function, with which arguments.
  A call of a function inherited from \<^verbatim>\<open>Object.prototype\<close> is not one of them;
  \<open>inherited_calls\<close> below lists those.
\<close>

fun invocations :: "effect list \<Rightarrow> (nat \<times> guard_args) list" where
  "invocations [] = []"
| "invocations (GuardCall n args led # es) = (n, args) # invocations es"
| "invocations (e # es) = invocations es"

text \<open>The calls of functions inherited from \<^verbatim>\<open>Object.prototype\<close>.\<close>

fun inherited_calls :: "effect list \<Rightarrow> (string \<times> guard_args) list" where
  "inherited_calls [] = []"
| "inherited_calls (InheritedCall name args # es) = (name, args) # inherited_calls es"
| "inherited_calls (e # es) = inherited_calls es"

text \<open>The ledger entries for an application that the guards entered saw.\<close>

fun observed :: "string \<Rightarrow> effect list \<Rightarrow> GuardLocation option list" where
  "observed a [] = []"
| "observed a (GuardCall n args led # es) = led a # observed a es"
| "observed a (e # es) = observed a es"

section \<open>Conditions on a request\<close>

text \<open>
  The request passes lines 51 and 53, its application is active, its path resolves against
  the application's base URL, and the result differs from the virtual location.
\<close>

definition navigates_active :: "'w collaborators \<Rightarrow> RouterTarget \<Rightarrow> 'w router_state \<Rightarrow> bool" where
  "navigates_active env to st =
     (let appName = formatAppName env (target_name to)
      in appName \<noteq> [] \<and> isString (target_path to)
         \<and> appName \<in> set (getActiveApps env (world st))
         \<and> (case appInstanceMap_get env (world st) appName of
               None \<Rightarrow> False
             | Some a \<Rightarrow>
                 (case sandBox a of
                    None \<Rightarrow> False
                  | Some sb \<Rightarrow>
                      (case createURL env (string_of (target_path to)) (url a) of
                         Inl e \<Rightarrow> False
                       | Inr t \<Rightarrow> full_path (proxyLocation sb) \<noteq> full_path t))))"

text \<open>
  The request passes lines 51 and 53, its application is not active, its path resolves
  against the host origin, and the result differs from the path decoded from the host URL.
\<close>

definition navigates_inactive :: "'w collaborators \<Rightarrow> RouterTarget \<Rightarrow> 'w router_state \<Rightarrow> bool" where
  "navigates_inactive env to st =
     (let appName = formatAppName env (target_name to)
      in appName \<noteq> [] \<and> isString (target_path to)
         \<and> appName \<notin> set (getActiveApps env (world st))
         \<and> (case appInstanceMap_get env (world st) appName of
               None \<Rightarrow> True
             | Some a \<Rightarrow> sandBox a \<noteq> None)
         \<and> (case createURL env (string_of (target_path to)) (location_origin env (world st)) of
               Inl e \<Rightarrow> False
             | Inr t \<Rightarrow> getMicroPathFromURL env (world st) appName \<noteq> Some (full_path t)))"

text \<open>The base URL a request for \<open>appName\<close> is resolved against (lines 59 and 73).\<close>

definition navigation_base :: "'w collaborators \<Rightarrow> 'w \<Rightarrow> string \<Rightarrow> string" where
  "navigation_base env w appName =
     (if appName \<in> set (getActiveApps env w) then
        (case appInstanceMap_get env w appName of None \<Rightarrow> [] | Some a \<Rightarrow> url a)
      else location_origin env w)"

definition resolved_full_path :: "'w collaborators \<Rightarrow> RouterTarget \<Rightarrow> string \<Rightarrow> string option" where
  "resolved_full_path env to base =
     (case createURL env (string_of (target_path to)) base of
        Inl e \<Rightarrow> None
      | Inr t \<Rightarrow> Some (full_path t))"

text \<open>
  What the router expects of the virtual History and of the notification: once
  \<^verbatim>\<open>pushState\<close> or \<^verbatim>\<open>replaceState\<close> was called with a path on the sandbox of an
  application and the application was notified, the virtual location reads that path;
  the registry keeps the application's base URL and the list of active applications.
\<close>

definition virtual_history_contract :: "'w collaborators \<Rightarrow> bool" where
  "virtual_history_contract env =
     (\<forall>w a m s p ap sb.
        appInstanceMap_get env w a = Some ap \<and> sandBox ap = Some sb \<longrightarrow>
        (let w' = dispatchPopStateEventToMicroApp env a (proxyHistory env a m s p w)
         in getActiveApps env w' = getActiveApps env w
            \<and> (\<exists>ap' sb'. appInstanceMap_get env w' a = Some ap' \<and> url ap' = url ap
                   \<and> sandBox ap' = Some sb' \<and> full_path (proxyLocation sb') = p)))"

text \<open>
  What the router expects of the real History and of the codec: once the host URL was set to
  the one \<^verbatim>\<open>setMicroPathToURL\<close> built for an application and a location, decoding the
  application's path from the host URL gives that location's full path; the origin, the
  registry entry and the list of active applications stay.
\<close>

definition native_history_contract :: "'w collaborators \<Rightarrow> bool" where
  "native_history_contract env =
     (\<forall>w a m s t.
        (let w' = nativeHistoryNavigate env m (fullPath (setMicroPathToURL env w a t)) s w
         in getActiveApps env w' = getActiveApps env w
            \<and> location_origin env w' = location_origin env w
            \<and> appInstanceMap_get env w' a = appInstanceMap_get env w a
            \<and> getMicroPathFromURL env w' a = Some (full_path t)))"

section \<open>A host with one application mounted\<close>

text \<open>
  A small instance of the collaborators: the host URL carries the path of one application in
  its query (\<^verbatim>\<open>/?name=path\<close>), the virtual History writes the sandbox location, the
  notification changes nothing. Application \<^verbatim>\<open>A\<close> is mounted at \<^verbatim>\<open>/a?x=1\<close>;
  \<^verbatim>\<open>B\<close> is registered and unmounted; no other name is known.
\<close>

record host =
  registry :: "string \<Rightarrow> app option"
  active_names :: "string list"
  host_url :: string
  host_state :: js_value

definition parse_path :: "string \<Rightarrow> MicroLocation" where
  "parse_path p =
     (let rest = dropWhile (\<lambda>c. c \<noteq> CHR ''?'' \<and> c \<noteq> CHR ''#'') p
      in \<lparr>pathname = takeWhile (\<lambda>c. c \<noteq> CHR ''?'' \<and> c \<noteq> CHR ''#'') p,
          search = takeWhile (\<lambda>c. c \<noteq> CHR ''#'') rest,
          hash = dropWhile (\<lambda>c. c \<noteq> CHR ''#'') rest\<rparr>)"

definition host_prefix :: "string \<Rightarrow> string" where
  "host_prefix a = ''/?'' @ a @ ''=''"

definition host_env :: "host collaborators" where
  "host_env =
     \<lparr>formatAppName = string_of,
      appInstanceMap_get = registry,
      getActiveApps = active_names,
      createURL = (\<lambda>p base.
         if p = ''http://'' then Inl TypeError
         else if p \<noteq> [] \<and> hd p = CHR ''/'' then Inr (parse_path p)
         else Inr (parse_path (CHR ''/'' # p))),
      location_origin = (\<lambda>w. ''http://host''),
      getMicroPathFromURL = (\<lambda>w a.
         if take (length (host_prefix a)) (host_url w) = host_prefix a
         then Some (drop (length (host_prefix a)) (host_url w)) else None),
      setMicroPathToURL = (\<lambda>w a t.
         \<lparr>fullPath = host_prefix a @ full_path t, searchHash = tl (host_prefix a @ full_path t)\<rparr>),
      setMicroState = (\<lambda>a raw micro origin sh. JObject 0 [(''microAppState'', JObject 1 [(a, micro)])]),
      rawHistoryState = host_state,
      proxyHistory = (\<lambda>a m s p w.
         w\<lparr>registry := (registry w)
              (a := map_option
                      (\<lambda>ap. ap\<lparr>sandBox := map_option (\<lambda>sb. sb\<lparr>proxyLocation := parse_path p\<rparr>)
                                                (sandBox ap)\<rparr>)
                      (registry w a))\<rparr>),
      dispatchPopStateEventToMicroApp = (\<lambda>a w. w),
      nativeHistoryNavigate = (\<lambda>m p s w. w\<lparr>host_url := p, host_state := s\<rparr>),
      guard_raises = (\<lambda>n. n = 13)\<rparr>"

definition host_world :: host where
  "host_world =
     \<lparr>registry = (\<lambda>n.
         if n = ''A'' then
           Some \<lparr>url = ''http://a.example/'',
                 sandBox = Some \<lparr>proxyLocation = \<lparr>pathname = ''/a'', search = ''?x=1'', hash = []\<rparr>\<rparr>\<rparr>
         else if n = ''B'' then
           Some \<lparr>url = ''http://b.example/'',
                 sandBox = Some \<lparr>proxyLocation = \<lparr>pathname = ''/'', search = [], hash = []\<rparr>\<rparr>\<rparr>
         else None),
      active_names = [''A''],
      host_url = ''/'',
      host_state = JNull\<rparr>"

definition initial_state :: "'w \<Rightarrow> 'w router_state" where
  "initial_state w =
     \<lparr>current = (\<lambda>a. None), beforeGuards = [], afterGuards = [], idleQueue = [],
      effects = [], world = w\<rparr>"

definition request :: "string \<Rightarrow> string \<Rightarrow> js_value \<Rightarrow> RouterTarget" where
  "request n p r =
     \<lparr>target_name = JStr n, target_path = JStr p, target_state = JUndefined, target_replace = r\<rparr>"

definition push_effects :: "'w collaborators \<Rightarrow> RouterTarget \<Rightarrow> 'w router_state \<Rightarrow> effect list" where
  "push_effects env to st = new_effects st (state_of (router_push env to st))"

definition replace_effects :: "'w collaborators \<Rightarrow> RouterTarget \<Rightarrow> 'w router_state \<Rightarrow> effect list" where
  "replace_effects env to st = new_effects st (state_of (router_replace env to st))"

text \<open>A call that changes a History or notifies an application.\<close>

definition mutates_or_notifies :: "effect \<Rightarrow> bool" where
  "mutates_or_notifies e = (is_real_history e \<or> is_virtual_history e \<or> is_notification e)"

text \<open>
  From the state \<open>st\<close>, the call with outcome \<open>c\<close> changed no History, notified nobody,
  and left the state of the collaborators as it was.
\<close>

definition silent :: "'w router_state \<Rightarrow> 'w router_state completion \<Rightarrow> bool" where
  "silent st c =
     (filter mutates_or_notifies (new_effects st (state_of c)) = [] \<and> world (state_of c) = world st)"

section \<open>The guards as the specification describes them\<close>

text \<open>
  "A global guard receives \<open>(appName, to, from)\<close>; a keyed guard is invoked only if it has
  an entry for \<open>appName\<close>, receiving \<open>(to, from)\<close>": the invocation a registered guard
  gives rise to, if any.
\<close>

fun guard_invocation :: "string \<Rightarrow> GuardLocation \<Rightarrow> GuardLocation \<Rightarrow> js_value \<Rightarrow> (nat \<times> guard_args) option" where
  "guard_invocation a to frm (JFunction n) = Some (n, GlobalArgs a to frm)"
| "guard_invocation a to frm (JObject r ps) =
     (case map_of ps a of Some (JFunction n) \<Rightarrow> Some (n, KeyedArgs to frm) | _ \<Rightarrow> None)"
| "guard_invocation a to frm g = None"

text \<open>"Invoke every guard, in registration order."\<close>

definition expected_invocations :: "string \<Rightarrow> GuardLocation \<Rightarrow> GuardLocation \<Rightarrow> js_value list \<Rightarrow> (nat \<times> guard_args) list" where
  "expected_invocations a to frm gs = List.map_filter (guard_invocation a to frm) gs"

text \<open>The operations that create the ledger entry of an application.\<close>

fun writes_entry :: "string \<Rightarrow> router_op \<Rightarrow> bool" where
  "writes_entry a (ExecuteNavigationGuard b to frm) = (a = b)"
| "writes_entry a op = False"

section \<open>A host with guards registered\<close>

text \<open>
  On the host above, a global guard (function 1) and two keyed guards (function 2 for
  \<^verbatim>\<open>A\<close>, function 3 for \<^verbatim>\<open>B\<close>) are registered with \<^verbatim>\<open>beforeEach\<close>, in that
  order, and a global guard (function 4) with \<^verbatim>\<open>afterEach\<close>.
\<close>

definition loc_a :: GuardLocation where
  "loc_a = \<lparr>pathname = ''/a'', search = ''?x=1'', hash = []\<rparr>"

definition loc_b :: GuardLocation where
  "loc_b = \<lparr>pathname = ''/b'', search = [], hash = []\<rparr>"

definition guarded_state :: "host router_state" where
  "guarded_state =
     snd (afterEach (JFunction 4)
       (snd (beforeEach (JObject 8 [(''B'', JFunction 3)])
         (snd (beforeEach (JObject 7 [(''A'', JFunction 2)])
           (snd (beforeEach (JFunction 1) (initial_state host_world))))))))"

text \<open>
  On the same host, the keyed guard \<^verbatim>\<open>{}\<close>, which has no entry at all, and then a
  global guard (function 1) are registered with \<^verbatim>\<open>beforeEach\<close>, and a global guard
  (function 4) with \<^verbatim>\<open>afterEach\<close>.
\<close>

definition empty_keyed_state :: "host router_state" where
  "empty_keyed_state =
     snd (afterEach (JFunction 4)
       (snd (beforeEach (JFunction 1)
         (snd (beforeEach (JObject 9 []) (initial_state host_world))))))"

section \<open>Facts about the navigation methods\<close>

lemma perform_fields [simp]:
  "effects (perform e f st) = effects st @ [e]"
  "world (perform e f st) = f (world st)"
  "current (perform e f st) = current st"
  "beforeGuards (perform e f st) = beforeGuards st"
  "afterGuards (perform e f st) = afterGuards st"
  "idleQueue (perform e f st) = idleQueue st"
  by (simp_all add: perform_def)

lemma logError_fields [simp]:
  "effects (logError m st) = effects st @ [LogError m]"
  "world (logError m st) = world st"
  "current (logError m st) = current st"
  "beforeGuards (logError m st) = beforeGuards st"
  "afterGuards (logError m st) = afterGuards st"
  "idleQueue (logError m st) = idleQueue st"
  by (simp_all add: logError_def)

lemma new_effects_append [simp]: "effects st' = effects st @ es \<Longrightarrow> new_effects st st' = es"
  by (simp add: new_effects_def)

lemma new_effects_self [simp]: "new_effects st st = []"
  by (simp add: new_effects_def)

lemma nav_invalid:
  assumes "formatAppName env (target_name to) = [] \<or> \<not> isString (target_path to)"
  shows "createNavigationMethod env r to st = Returned (logError (required_message r) st)"
  using assms by (auto simp: createNavigationMethod_def Let_def)

lemma nav_closed:
  assumes "formatAppName env (target_name to) = a" "a \<noteq> []" "isString (target_path to)"
    and "appInstanceMap_get env (world st) a = Some ap" "sandBox ap = None"
  shows "createNavigationMethod env r to st = Returned (logError (closed_message a) st)"
  using assms by (simp add: createNavigationMethod_def Let_def)

lemma nav_active_no_app:
  assumes "formatAppName env (target_name to) = a" "a \<noteq> []" "isString (target_path to)"
    and "appInstanceMap_get env (world st) a = None" "a \<in> set (getActiveApps env (world st))"
  shows "createNavigationMethod env r to st = Thrown TypeError st"
  using assms by (simp add: createNavigationMethod_def navigate_active_def Let_def)

lemma nav_active_unresolved:
  assumes "formatAppName env (target_name to) = a" "a \<noteq> []" "isString (target_path to)"
    and "appInstanceMap_get env (world st) a = Some ap" "sandBox ap = Some sb"
    and "a \<in> set (getActiveApps env (world st))"
    and "createURL env (string_of (target_path to)) (url ap) = Inl e"
  shows "createNavigationMethod env r to st = Thrown e st"
  using assms by (simp add: createNavigationMethod_def navigate_active_def Let_def)

lemma nav_active_same:
  assumes "formatAppName env (target_name to) = a" "a \<noteq> []" "isString (target_path to)"
    and "appInstanceMap_get env (world st) a = Some ap" "sandBox ap = Some sb"
    and "a \<in> set (getActiveApps env (world st))"
    and "createURL env (string_of (target_path to)) (url ap) = Inr t"
    and "full_path (proxyLocation sb) = full_path t"
  shows "createNavigationMethod env r to st = Returned st"
  using assms
  by (simp add: createNavigationMethod_def navigate_active_def Let_def full_path_def)

lemma nav_active_changed:
  assumes "formatAppName env (target_name to) = a" "a \<noteq> []" "isString (target_path to)"
    and "appInstanceMap_get env (world st) a = Some ap" "sandBox ap = Some sb"
    and "a \<in> set (getActiveApps env (world st))"
    and "createURL env (string_of (target_path to)) (url ap) = Inr t"
    and "full_path (proxyLocation sb) \<noteq> full_path t"
    and "m = (if (r \<and> target_replace to \<noteq> JBool False) \<or> target_replace to = JBool True
              then replaceState else pushState)"
  shows "createNavigationMethod env r to st =
           Returned (perform (DispatchPopState a) (dispatchPopStateEventToMicroApp env a)
             (perform (ProxyHistory a m (state_or_null (target_state to)) (full_path t))
                (proxyHistory env a m (state_or_null (target_state to)) (full_path t)) st))"
  using assms
  by (simp add: createNavigationMethod_def navigate_active_def Let_def full_path_def)

lemma nav_inactive_unresolved:
  assumes "formatAppName env (target_name to) = a" "a \<noteq> []" "isString (target_path to)"
    and "\<forall>ap. appInstanceMap_get env (world st) a = Some ap \<longrightarrow> sandBox ap \<noteq> None"
    and "a \<notin> set (getActiveApps env (world st))"
    and "createURL env (string_of (target_path to)) (location_origin env (world st)) = Inl e"
  shows "createNavigationMethod env r to st = Thrown e st"
  using assms
  by (auto simp: createNavigationMethod_def navigate_inactive_def Let_def split: option.splits)

lemma nav_inactive_same:
  assumes "formatAppName env (target_name to) = a" "a \<noteq> []" "isString (target_path to)"
    and "\<forall>ap. appInstanceMap_get env (world st) a = Some ap \<longrightarrow> sandBox ap \<noteq> None"
    and "a \<notin> set (getActiveApps env (world st))"
    and "createURL env (string_of (target_path to)) (location_origin env (world st)) = Inr t"
    and "getMicroPathFromURL env (world st) a = Some (full_path t)"
  shows "createNavigationMethod env r to st = Returned st"
  using assms
  by (auto simp: createNavigationMethod_def navigate_inactive_def Let_def full_path_def
      split: option.splits)

lemma nav_inactive_changed:
  assumes "formatAppName env (target_name to) = a" "a \<noteq> []" "isString (target_path to)"
    and "\<forall>ap. appInstanceMap_get env (world st) a = Some ap \<longrightarrow> sandBox ap \<noteq> None"
    and "a \<notin> set (getActiveApps env (world st))"
    and "createURL env (string_of (target_path to)) (location_origin env (world st)) = Inr t"
    and "getMicroPathFromURL env (world st) a \<noteq> Some (full_path t)"
    and "m = (if target_replace to = JBool False then pushState else replaceState)"
    and "res = setMicroPathToURL env (world st) a t"
    and "s = setMicroState env a (rawHistoryState env (world st)) (state_or_null (target_state to))
               (location_origin env (world st)) (searchHash res)"
  shows "createNavigationMethod env r to st =
           Returned (perform (NativeHistory m (fullPath res) s)
                       (nativeHistoryNavigate env m (fullPath res) s) st)"
  using assms
  by (auto simp: createNavigationMethod_def navigate_inactive_def Let_def full_path_def
      split: option.splits)

lemma navigates_activeD:
  assumes "navigates_active env to st"
  obtains a ap sb t where "formatAppName env (target_name to) = a" "a \<noteq> []" "isString (target_path to)"
    "appInstanceMap_get env (world st) a = Some ap" "sandBox ap = Some sb"
    "a \<in> set (getActiveApps env (world st))"
    "createURL env (string_of (target_path to)) (url ap) = Inr t"
    "full_path (proxyLocation sb) \<noteq> full_path t"
  using assms
  by (auto simp: navigates_active_def Let_def split: option.splits sum.splits)

lemma navigates_inactiveD:
  assumes "navigates_inactive env to st"
  obtains a t where "formatAppName env (target_name to) = a" "a \<noteq> []" "isString (target_path to)"
    "\<forall>ap. appInstanceMap_get env (world st) a = Some ap \<longrightarrow> sandBox ap \<noteq> None"
    "a \<notin> set (getActiveApps env (world st))"
    "createURL env (string_of (target_path to)) (location_origin env (world st)) = Inr t"
    "getMicroPathFromURL env (world st) a \<noteq> Some (full_path t)"
  using assms
  by (auto simp: navigates_inactive_def Let_def split: option.splits sum.splits)

lemma active_methods:
  assumes "navigates_active env to st"
  shows "virtual_methods (new_effects st (state_of (createNavigationMethod env r to st)))
           = [if (r \<and> target_replace to \<noteq> JBool False) \<or> target_replace to = JBool True
              then replaceState else pushState]"
    and "real_methods (new_effects st (state_of (createNavigationMethod env r to st))) = []"
proof -
  from assms obtain a ap sb t where h: "formatAppName env (target_name to) = a" "a \<noteq> []" "isString (target_path to)"
    "appInstanceMap_get env (world st) a = Some ap" "sandBox ap = Some sb"
    "a \<in> set (getActiveApps env (world st))"
    "createURL env (string_of (target_path to)) (url ap) = Inr t"
    "full_path (proxyLocation sb) \<noteq> full_path t"
    by (rule navigates_activeD)
  note eq = nav_active_changed [OF h refl, of r]
  show "virtual_methods (new_effects st (state_of (createNavigationMethod env r to st)))
           = [if (r \<and> target_replace to \<noteq> JBool False) \<or> target_replace to = JBool True
              then replaceState else pushState]"
    by (simp add: eq)
  show "real_methods (new_effects st (state_of (createNavigationMethod env r to st))) = []"
    by (simp add: eq)
qed

lemma inactive_methods:
  assumes "navigates_inactive env to st"
  shows "real_methods (new_effects st (state_of (createNavigationMethod env r to st)))
           = [if target_replace to = JBool False then pushState else replaceState]"
    and "virtual_methods (new_effects st (state_of (createNavigationMethod env r to st))) = []"
proof -
  from assms obtain a t where h: "formatAppName env (target_name to) = a" "a \<noteq> []" "isString (target_path to)"
    "\<forall>ap. appInstanceMap_get env (world st) a = Some ap \<longrightarrow> sandBox ap \<noteq> None"
    "a \<notin> set (getActiveApps env (world st))"
    "createURL env (string_of (target_path to)) (location_origin env (world st)) = Inr t"
    "getMicroPathFromURL env (world st) a \<noteq> Some (full_path t)"
    by (rule navigates_inactiveD)
  note eq = nav_inactive_changed [OF h refl refl refl, of r]
  show "real_methods (new_effects st (state_of (createNavigationMethod env r to st)))
           = [if target_replace to = JBool False then pushState else replaceState]"
    by (simp add: eq)
  show "virtual_methods (new_effects st (state_of (createNavigationMethod env r to st))) = []"
    by (simp add: eq)
qed

lemma silent_same [simp]: "silent st (Returned st)" "silent st (Thrown e st)"
  by (simp_all add: silent_def)

lemma silent_log [simp]: "silent st (Returned (logError m st))"
  by (simp add: silent_def mutates_or_notifies_def)

lemma resolved_Inl:
  "createURL env (string_of (target_path to)) b = Inl e \<Longrightarrow> resolved_full_path env to b = None"
  by (simp add: resolved_full_path_def)

lemma resolved_Inr:
  "createURL env (string_of (target_path to)) b = Inr t \<Longrightarrow> resolved_full_path env to b = Some (full_path t)"
  by (simp add: resolved_full_path_def)

lemma resolved_NoneD:
  "resolved_full_path env to b = None \<Longrightarrow> \<exists>e. createURL env (string_of (target_path to)) b = Inl e"
  by (simp add: resolved_full_path_def split: sum.splits)

lemma resolved_SomeD:
  "resolved_full_path env to b = Some p \<Longrightarrow>
     \<exists>t. createURL env (string_of (target_path to)) b = Inr t \<and> full_path t = p"
  by (simp add: resolved_full_path_def split: sum.splits)

lemma inactive_pair:
  assumes nc: "native_history_contract env"
    and n1: "formatAppName env (target_name to1) = a"
    and n2: "formatAppName env (target_name to2) = a"
    and ne: "a \<noteq> []"
    and s1: "isString (target_path to1)" and s2: "isString (target_path to2)"
    and open_sb: "\<forall>ap. appInstanceMap_get env (world st) a = Some ap \<longrightarrow> sandBox ap \<noteq> None"
    and inact: "a \<notin> set (getActiveApps env (world st))"
    and same: "resolved_full_path env to1 (location_origin env (world st))
                 = resolved_full_path env to2 (location_origin env (world st))"
  shows "silent (state_of (createNavigationMethod env r1 to1 st))
           (createNavigationMethod env r2 to2 (state_of (createNavigationMethod env r1 to1 st)))"
proof (cases "createURL env (string_of (target_path to1)) (location_origin env (world st))")
  case (Inl e)
  then have first: "createNavigationMethod env r1 to1 st = Thrown e st"
    using nav_inactive_unresolved [OF n1 ne s1 open_sb inact] by simp
  from Inl same obtain e' where
    "createURL env (string_of (target_path to2)) (location_origin env (world st)) = Inl e'"
    using resolved_NoneD [of env to2] resolved_Inl [of env to1] by metis
  then have "createNavigationMethod env r2 to2 st = Thrown e' st"
    using nav_inactive_unresolved [OF n2 ne s2 open_sb inact] by simp
  with first show ?thesis by simp
next
  case (Inr t1)
  with same obtain t2 where
    t2: "createURL env (string_of (target_path to2)) (location_origin env (world st)) = Inr t2"
    and eq: "full_path t2 = full_path t1"
    using resolved_SomeD [of env to2] resolved_Inr [of env to1] by metis
  show ?thesis
  proof (cases "getMicroPathFromURL env (world st) a = Some (full_path t1)")
    case True
    have first: "createNavigationMethod env r1 to1 st = Returned st"
      using nav_inactive_same [OF n1 ne s1 open_sb inact Inr True] .
    have "createNavigationMethod env r2 to2 st = Returned st"
      using nav_inactive_same [OF n2 ne s2 open_sb inact t2] True eq by simp
    with first show ?thesis by simp
  next
    case False
    define m where "m = (if target_replace to1 = JBool False then pushState else replaceState)"
    define res where "res = setMicroPathToURL env (world st) a t1"
    define s where "s = setMicroState env a (rawHistoryState env (world st))
               (state_or_null (target_state to1)) (location_origin env (world st)) (searchHash res)"
    define st1 where "st1 = perform (NativeHistory m (fullPath res) s)
                       (nativeHistoryNavigate env m (fullPath res) s) st"
    have first: "createNavigationMethod env r1 to1 st = Returned st1"
      unfolding st1_def
      using nav_inactive_changed [OF n1 ne s1 open_sb inact Inr False m_def res_def s_def] .
    have w1: "world st1 = nativeHistoryNavigate env m (fullPath (setMicroPathToURL env (world st) a t1)) s (world st)"
      by (simp add: st1_def res_def)
    from nc have c:
      "getActiveApps env (world st1) = getActiveApps env (world st)"
      "location_origin env (world st1) = location_origin env (world st)"
      "appInstanceMap_get env (world st1) a = appInstanceMap_get env (world st) a"
      "getMicroPathFromURL env (world st1) a = Some (full_path t1)"
      unfolding native_history_contract_def w1 by (simp_all add: Let_def)
    have "createNavigationMethod env r2 to2 st1 = Returned st1"
    proof (rule nav_inactive_same [OF n2 ne s2])
      show "\<forall>ap. appInstanceMap_get env (world st1) a = Some ap \<longrightarrow> sandBox ap \<noteq> None"
        using open_sb c by simp
      show "a \<notin> set (getActiveApps env (world st1))" using inact c by simp
      show "createURL env (string_of (target_path to2)) (location_origin env (world st1)) = Inr t2"
        using t2 c by simp
      show "getMicroPathFromURL env (world st1) a = Some (full_path t2)" using c eq by simp
    qed
    with first show ?thesis by simp
  qed
qed

lemma active_pair:
  assumes vc: "virtual_history_contract env"
    and n1: "formatAppName env (target_name to1) = a"
    and n2: "formatAppName env (target_name to2) = a"
    and ne: "a \<noteq> []"
    and s1: "isString (target_path to1)" and s2: "isString (target_path to2)"
    and app: "appInstanceMap_get env (world st) a = Some ap"
    and sb: "sandBox ap = Some sb"
    and act: "a \<in> set (getActiveApps env (world st))"
    and same: "resolved_full_path env to1 (url ap) = resolved_full_path env to2 (url ap)"
  shows "silent (state_of (createNavigationMethod env r1 to1 st))
           (createNavigationMethod env r2 to2 (state_of (createNavigationMethod env r1 to1 st)))"
proof (cases "createURL env (string_of (target_path to1)) (url ap)")
  case (Inl e)
  then have first: "createNavigationMethod env r1 to1 st = Thrown e st"
    using nav_active_unresolved [OF n1 ne s1 app sb act] by simp
  from Inl same obtain e' where
    "createURL env (string_of (target_path to2)) (url ap) = Inl e'"
    using resolved_NoneD [of env to2] resolved_Inl [of env to1] by metis
  then have "createNavigationMethod env r2 to2 st = Thrown e' st"
    using nav_active_unresolved [OF n2 ne s2 app sb act] by simp
  with first show ?thesis by simp
next
  case (Inr t1)
  with same obtain t2 where
    t2: "createURL env (string_of (target_path to2)) (url ap) = Inr t2"
    and eq: "full_path t2 = full_path t1"
    using resolved_SomeD [of env to2] resolved_Inr [of env to1] by metis
  show ?thesis
  proof (cases "full_path (proxyLocation sb) = full_path t1")
    case True
    have first: "createNavigationMethod env r1 to1 st = Returned st"
      using nav_active_same [OF n1 ne s1 app sb act Inr True] .
    have "createNavigationMethod env r2 to2 st = Returned st"
      using nav_active_same [OF n2 ne s2 app sb act t2] True eq by simp
    with first show ?thesis by simp
  next
    case False
    define m where "m = (if (r1 \<and> target_replace to1 \<noteq> JBool False) \<or> target_replace to1 = JBool True
              then replaceState else pushState)"
    define st1 where "st1 = perform (DispatchPopState a) (dispatchPopStateEventToMicroApp env a)
             (perform (ProxyHistory a m (state_or_null (target_state to1)) (full_path t1))
                (proxyHistory env a m (state_or_null (target_state to1)) (full_path t1)) st)"
    have first: "createNavigationMethod env r1 to1 st = Returned st1"
      unfolding st1_def
      using nav_active_changed [OF n1 ne s1 app sb act Inr False m_def] .
    have w1: "world st1 = dispatchPopStateEventToMicroApp env a
                 (proxyHistory env a m (state_or_null (target_state to1)) (full_path t1) (world st))"
      by (simp add: st1_def)
    note vc' = vc [unfolded virtual_history_contract_def Let_def, rule_format, OF conjI, OF app sb]
    have c1: "getActiveApps env (world st1) = getActiveApps env (world st)"
      unfolding w1 using vc' by blast
    have "\<exists>ap' sb'. appInstanceMap_get env (world st1) a = Some ap' \<and> url ap' = url ap
                   \<and> sandBox ap' = Some sb' \<and> full_path (proxyLocation sb') = full_path t1"
      unfolding w1 using vc' by blast
    then obtain ap' sb' where c2: "appInstanceMap_get env (world st1) a = Some ap'" "url ap' = url ap"
      "sandBox ap' = Some sb'" "full_path (proxyLocation sb') = full_path t1"
      by blast
    have "createNavigationMethod env r2 to2 st1 = Returned st1"
    proof (rule nav_active_same [OF n2 ne s2 c2(1) c2(3)])
      show "a \<in> set (getActiveApps env (world st1))" using act c1 by simp
      show "createURL env (string_of (target_path to2)) (url ap') = Inr t2" using t2 c2 by simp
      show "full_path (proxyLocation sb') = full_path t2" using c2 eq by simp
    qed
    with first show ?thesis by simp
  qed
qed

lemma full_path_parse_path: "full_path (parse_path p) = p"
  by (simp add: full_path_def parse_path_def Let_def)

lemma host_virtual_history_contract: "virtual_history_contract host_env"
  by (simp add: virtual_history_contract_def host_env_def Let_def full_path_parse_path)

lemma host_native_history_contract: "native_history_contract host_env"
  by (simp add: native_history_contract_def host_env_def Let_def)

lemma nav_effects_extend:
  "\<exists>es. effects (state_of (createNavigationMethod env r to st)) = effects st @ es
     \<and> (formatAppName env (target_name to) \<in> set (getActiveApps env (world st))
          \<longrightarrow> (\<forall>e \<in> set es. \<not> is_real_history e))
     \<and> (formatAppName env (target_name to) \<notin> set (getActiveApps env (world st))
          \<longrightarrow> (\<forall>e \<in> set es. \<not> is_virtual_history e \<and> \<not> is_notification e))"
  by (auto simp: createNavigationMethod_def navigate_active_def navigate_inactive_def Let_def
      split: option.splits sum.splits)

lemma second_call_silent:
  assumes vc: "virtual_history_contract env" and nc: "native_history_contract env"
    and names: "formatAppName env (target_name to2) = formatAppName env (target_name to1)"
    and s1: "isString (target_path to1)" and s2: "isString (target_path to2)"
    and same: "resolved_full_path env to1
                  (navigation_base env (world st) (formatAppName env (target_name to1)))
               = resolved_full_path env to2
                  (navigation_base env (world st) (formatAppName env (target_name to1)))"
  shows "silent (state_of (createNavigationMethod env r1 to1 st))
           (createNavigationMethod env r2 to2 (state_of (createNavigationMethod env r1 to1 st)))"
proof -
  define a where "a = formatAppName env (target_name to1)"
  have n1: "formatAppName env (target_name to1) = a" and n2: "formatAppName env (target_name to2) = a"
    using names by (simp_all add: a_def)
  show ?thesis
  proof (cases "a = []")
    case True
    then show ?thesis using n1 n2 by (simp add: nav_invalid)
  next
    case ne: False
    show ?thesis
    proof (cases "a \<in> set (getActiveApps env (world st))")
      case act: True
      show ?thesis
      proof (cases "appInstanceMap_get env (world st) a")
        case None
        then show ?thesis
          using nav_active_no_app [OF n1 ne s1 None act] nav_active_no_app [OF n2 ne s2 None act]
          by simp
      next
        case (Some ap)
        show ?thesis
        proof (cases "sandBox ap")
          case None
          have "createNavigationMethod env r2 to2 (logError (closed_message a) st)
                  = Returned (logError (closed_message a) (logError (closed_message a) st))"
            by (rule nav_closed [OF n2 ne s2 _ None]) (simp add: Some)
          then show ?thesis
            using nav_closed [OF n1 ne s1 Some None] by simp
        next
          case sb: (Some sb)
          have "resolved_full_path env to1 (url ap) = resolved_full_path env to2 (url ap)"
            using same act Some by (simp add: navigation_base_def n1)
          then show ?thesis
            using active_pair [OF vc n1 n2 ne s1 s2 Some sb act] by simp
        qed
      qed
    next
      case inact: False
      have same': "resolved_full_path env to1 (location_origin env (world st))
                 = resolved_full_path env to2 (location_origin env (world st))"
        using same inact by (simp add: navigation_base_def n1)
      show ?thesis
      proof (cases "\<forall>ap. appInstanceMap_get env (world st) a = Some ap \<longrightarrow> sandBox ap \<noteq> None")
        case True
        then show ?thesis using inactive_pair [OF nc n1 n2 ne s1 s2 True inact same'] by simp
      next
        case False
        then obtain ap where ap: "appInstanceMap_get env (world st) a = Some ap" "sandBox ap = None"
          by auto
        have "createNavigationMethod env r2 to2 (logError (closed_message a) st)
                = Returned (logError (closed_message a) (logError (closed_message a) st))"
          by (rule nav_closed [OF n2 ne s2 _ ap(2)]) (simp add: ap)
        then show ?thesis
          using nav_closed [OF n1 ne s1 ap] by simp
      qed
    qed
  qed
qed


lemma active_first_call:
  assumes "navigates_active env to st"
  shows "length (filter is_virtual_history
                  (new_effects st (state_of (createNavigationMethod env r to st)))) = 1
       \<and> length (filter is_notification
                  (new_effects st (state_of (createNavigationMethod env r to st)))) = 1
       \<and> filter is_real_history
                  (new_effects st (state_of (createNavigationMethod env r to st))) = []"
proof -
  from assms obtain a ap sb t where h: "formatAppName env (target_name to) = a" "a \<noteq> []"
    "isString (target_path to)"
    "appInstanceMap_get env (world st) a = Some ap" "sandBox ap = Some sb"
    "a \<in> set (getActiveApps env (world st))"
    "createURL env (string_of (target_path to)) (url ap) = Inr t"
    "full_path (proxyLocation sb) \<noteq> full_path t"
    by (rule navigates_activeD)
  show ?thesis by (simp add: nav_active_changed [OF h refl, of r])
qed

lemma inactive_first_call:
  assumes "navigates_inactive env to st"
  shows "length (filter is_real_history
                  (new_effects st (state_of (createNavigationMethod env r to st)))) = 1
       \<and> filter is_virtual_history
                  (new_effects st (state_of (createNavigationMethod env r to st))) = []
       \<and> filter is_notification
                  (new_effects st (state_of (createNavigationMethod env r to st))) = []"
proof -
  from assms obtain a t where h: "formatAppName env (target_name to) = a" "a \<noteq> []"
    "isString (target_path to)"
    "\<forall>ap. appInstanceMap_get env (world st) a = Some ap \<longrightarrow> sandBox ap \<noteq> None"
    "a \<notin> set (getActiveApps env (world st))"
    "createURL env (string_of (target_path to)) (location_origin env (world st)) = Inr t"
    "getMicroPathFromURL env (world st) a \<noteq> Some (full_path t)"
    by (rule navigates_inactiveD)
  show ?thesis by (simp add: nav_inactive_changed [OF h refl refl refl, of r])
qed

section \<open>The same full path twice\<close>

text \<open>
  C1. Two consecutive calls of \<^verbatim>\<open>router.push\<close> or \<^verbatim>\<open>router.replace\<close> (in any
  combination) for the same application, with string paths that resolve to the same full
  path (against the application's base URL when it is active, against the host origin when
  it is not): the second call performs no History mutation, real or virtual, and dispatches
  no notification, and it leaves the host and the sandboxes as the first call left them. So
  of the two calls only the first can mutate a History or notify; it does when its path
  differs from the current one: one call to the virtual History and one notification for an
  active application, one call to the real History for an inactive one. The collaborators
  are taken to keep their contracts: the virtual History shows the path it was given, and
  the codec decodes from the host URL what it encoded.
\<close>

theorem C1_second_call_silent:
  assumes vc: "virtual_history_contract env" and nc: "native_history_contract env"
    and names: "formatAppName env (target_name to2) = formatAppName env (target_name to1)"
    and s1: "isString (target_path to1)" and s2: "isString (target_path to2)"
    and same: "resolved_full_path env to1
                  (navigation_base env (world st) (formatAppName env (target_name to1)))
               = resolved_full_path env to2
                  (navigation_base env (world st) (formatAppName env (target_name to1)))"
    and first: "st1 = state_of (createNavigationMethod env r1 to1 st)"
  shows "silent st1 (createNavigationMethod env r2 to2 st1)
       \<and> (navigates_active env to1 st \<longrightarrow>
            length (filter is_virtual_history (new_effects st st1)) = 1
            \<and> length (filter is_notification (new_effects st st1)) = 1
            \<and> filter is_real_history (new_effects st st1) = [])
       \<and> (navigates_inactive env to1 st \<longrightarrow>
            length (filter is_real_history (new_effects st st1)) = 1
            \<and> filter is_virtual_history (new_effects st st1) = []
            \<and> filter is_notification (new_effects st st1) = [])"
  unfolding first
  using second_call_silent [OF vc nc names s1 s2 same, of r1 r2]
    active_first_call [of env to1 st r1] inactive_first_call [of env to1 st r1]
  by blast

theorem C1_second_call_silent_witness:
  "virtual_history_contract host_env \<and> native_history_contract host_env
   \<and> push_effects host_env (request ''A'' ''/b'' JUndefined) (initial_state host_world)
       = [ProxyHistory ''A'' pushState JNull ''/b'', DispatchPopState ''A'']
   \<and> silent (state_of (createNavigationMethod host_env False (request ''A'' ''/b'' JUndefined)
                 (initial_state host_world)))
        (createNavigationMethod host_env True (request ''A'' ''b'' (JBool True))
           (state_of (createNavigationMethod host_env False (request ''A'' ''/b'' JUndefined)
                 (initial_state host_world))))"
proof -
  have names: "formatAppName host_env (target_name (request ''A'' ''b'' (JBool True)))
                 = formatAppName host_env (target_name (request ''A'' ''/b'' JUndefined))"
    by (simp add: host_env_def request_def)
  have s1: "isString (target_path (request ''A'' ''/b'' JUndefined))"
    and s2: "isString (target_path (request ''A'' ''b'' (JBool True)))"
    by (simp_all add: request_def)
  have same: "resolved_full_path host_env (request ''A'' ''/b'' JUndefined)
                  (navigation_base host_env (world (initial_state host_world))
                     (formatAppName host_env (target_name (request ''A'' ''/b'' JUndefined))))
               = resolved_full_path host_env (request ''A'' ''b'' (JBool True))
                  (navigation_base host_env (world (initial_state host_world))
                     (formatAppName host_env (target_name (request ''A'' ''/b'' JUndefined))))"
    by (simp add: resolved_full_path_def host_env_def request_def)
  have first: "push_effects host_env (request ''A'' ''/b'' JUndefined) (initial_state host_world)
       = [ProxyHistory ''A'' pushState JNull ''/b'', DispatchPopState ''A'']"
    by (simp add: push_effects_def router_push_def createNavigationMethod_def navigate_active_def
      host_env_def request_def initial_state_def host_world_def new_effects_def
      parse_path_def full_path_def state_or_null_def perform_def Let_def)
  show ?thesis
    using C1_second_call_silent [OF host_virtual_history_contract host_native_history_contract
        names s1 s2 same refl, of False True] first
      host_virtual_history_contract host_native_history_contract
    by simp
qed

section \<open>Push or replace\<close>

text \<open>
  C2 (as the code has it). For a request that navigates, the method is chosen as follows.
  Active application (virtual History, line 63): \<^verbatim>\<open>router.replace\<close> with no
  \<^verbatim>\<open>replace\<close> field replaces and \<^verbatim>\<open>router.push\<close> with no field pushes;
  \<^verbatim>\<open>replace: false\<close> pushes and \<^verbatim>\<open>replace: true\<close> replaces, whichever of the two
  methods is called; the real History is not called. Inactive application (real History,
  line 78): the method is a push exactly when the request carries \<^verbatim>\<open>replace: false\<close>
  and a replace otherwise, for \<^verbatim>\<open>router.push\<close> and \<^verbatim>\<open>router.replace\<close> alike; the
  virtual History is not called.
\<close>

theorem C2_method_selection:
  "(navigates_active env to st \<longrightarrow>
      real_methods (push_effects env to st) = [] \<and>
      real_methods (replace_effects env to st) = [] \<and>
      (target_replace to = JUndefined \<longrightarrow>
         virtual_methods (replace_effects env to st) = [replaceState] \<and>
         virtual_methods (push_effects env to st) = [pushState]) \<and>
      (target_replace to = JBool False \<longrightarrow>
         virtual_methods (replace_effects env to st) = [pushState] \<and>
         virtual_methods (push_effects env to st) = [pushState]) \<and>
      (target_replace to = JBool True \<longrightarrow>
         virtual_methods (replace_effects env to st) = [replaceState] \<and>
         virtual_methods (push_effects env to st) = [replaceState]))
   \<and>
   (navigates_inactive env to st \<longrightarrow>
      virtual_methods (push_effects env to st) = [] \<and>
      virtual_methods (replace_effects env to st) = [] \<and>
      real_methods (push_effects env to st)
        = [if target_replace to = JBool False then pushState else replaceState] \<and>
      real_methods (replace_effects env to st)
        = [if target_replace to = JBool False then pushState else replaceState])"
  by (simp add: push_effects_def replace_effects_def router_push_def router_replace_def
      active_methods inactive_methods)

theorem C2_method_selection_witness:
  "navigates_active host_env (request ''A'' ''/b'' JUndefined) (initial_state host_world)
   \<and> virtual_methods (replace_effects host_env (request ''A'' ''/b'' JUndefined) (initial_state host_world)) = [replaceState]
   \<and> virtual_methods (push_effects host_env (request ''A'' ''/b'' JUndefined) (initial_state host_world)) = [pushState]
   \<and> navigates_inactive host_env (request ''B'' ''/home'' (JBool False)) (initial_state host_world)
   \<and> real_methods (push_effects host_env (request ''B'' ''/home'' (JBool False)) (initial_state host_world)) = [pushState]"
proof -
  have a: "navigates_active host_env (request ''A'' ''/b'' JUndefined) (initial_state host_world)"
    by (simp add: navigates_active_def host_env_def request_def initial_state_def host_world_def
        parse_path_def full_path_def)
  have b: "navigates_inactive host_env (request ''B'' ''/home'' (JBool False)) (initial_state host_world)"
    by (simp add: navigates_inactive_def host_env_def request_def initial_state_def host_world_def
        parse_path_def full_path_def host_prefix_def)
  have c: "target_replace (request ''A'' ''/b'' JUndefined) = JUndefined"
    "target_replace (request ''B'' ''/home'' (JBool False)) = JBool False"
    by (simp_all add: request_def)
  show ?thesis
    using a b c C2_method_selection [of host_env "request ''A'' ''/b'' JUndefined" "initial_state host_world"]
      C2_method_selection [of host_env "request ''B'' ''/home'' (JBool False)" "initial_state host_world"]
    by simp
qed

text \<open>
  \<^verbatim>\<open>router.push({name: 'B', path: '/home'})\<close> for the unmounted application \<^verbatim>\<open>B\<close>,
  with no \<^verbatim>\<open>replace\<close> field: the real History receives \<^verbatim>\<open>replaceState\<close>, not a push.
\<close>

theorem C2_push_inactive_counterexample:
  "''B'' \<notin> set (getActiveApps host_env (world (initial_state host_world)))
   \<and> push_effects host_env (request ''B'' ''/home'' JUndefined) (initial_state host_world)
     = [NativeHistory replaceState ''/?B=/home''
         (JObject 0 [(''microAppState'', JObject 1 [(''B'', JNull)])])]"
  by (simp add: push_effects_def router_push_def createNavigationMethod_def navigate_inactive_def
      host_env_def request_def initial_state_def host_world_def new_effects_def
      parse_path_def full_path_def host_prefix_def state_or_null_def perform_def Let_def)


section \<open>Requests that fail validation\<close>

text \<open>
  C3 (as the code has it). \<^verbatim>\<open>router.push\<close> and \<^verbatim>\<open>router.replace\<close> check that
  \<^verbatim>\<open>formatAppName(request.name)\<close> is not empty and that \<^verbatim>\<open>request.path\<close> is a string
  (line 51). Whenever that check fails the call returns without throwing, and all it does is
  report the failure with a message that names the method called: no History is changed,
  no notification is dispatched, and the ledger, the guards and the idle queue stay as they
  were.
\<close>

theorem C3_invalid_request_reported:
  assumes "formatAppName env (target_name to) = [] \<or> \<not> isString (target_path to)"
  shows "router_push env to st =
           Returned (st\<lparr>effects := effects st
              @ [LogError ''navigation failed, name & path are required when use router.push'']\<rparr>)
       \<and> router_replace env to st =
           Returned (st\<lparr>effects := effects st
              @ [LogError ''navigation failed, name & path are required when use router.replace'']\<rparr>)"
  using assms
  by (simp add: router_push_def router_replace_def nav_invalid logError_def perform_def
      required_message_def)

theorem C3_invalid_request_reported_witness:
  "\<not> isString (target_path \<lparr>target_name = JStr ''A'', target_path = JNum 7,
                              target_state = JUndefined, target_replace = JUndefined\<rparr>)
   \<and> router_push host_env \<lparr>target_name = JStr ''A'', target_path = JNum 7,
                          target_state = JUndefined, target_replace = JUndefined\<rparr>
        (initial_state host_world)
     = Returned ((initial_state host_world)\<lparr>effects :=
         [LogError ''navigation failed, name & path are required when use router.push'']\<rparr>)"
  using C3_invalid_request_reported [of host_env "\<lparr>target_name = JStr ''A'', target_path = JNum 7,
                              target_state = JUndefined, target_replace = JUndefined\<rparr>" "initial_state host_world"]
  by (simp add: initial_state_def)

text \<open>
  A name that no registered application bears passes the check: \<^verbatim>\<open>ghost\<close> is not in
  the registry, and \<^verbatim>\<open>router.push({name: 'ghost', path: '/x'})\<close> reports nothing and
  rewrites the host URL through the real History.
\<close>

theorem C3_unknown_application_counterexample:
  "appInstanceMap_get host_env (world (initial_state host_world)) ''ghost'' = None
   \<and> push_effects host_env (request ''ghost'' ''/x'' JUndefined) (initial_state host_world)
     = [NativeHistory replaceState ''/?ghost=/x''
         (JObject 0 [(''microAppState'', JObject 1 [(''ghost'', JNull)])])]"
  by (simp add: push_effects_def router_push_def createNavigationMethod_def navigate_inactive_def
      host_env_def request_def initial_state_def host_world_def new_effects_def
      parse_path_def full_path_def host_prefix_def state_or_null_def perform_def Let_def)

section \<open>Active and inactive applications\<close>

text \<open>
  C4. A call of \<^verbatim>\<open>router.push\<close> or \<^verbatim>\<open>router.replace\<close> whose application is in
  \<^verbatim>\<open>getActiveApps()\<close> makes no call to the real History; a call whose application is
  not there makes no call to the History of a sandbox and dispatches no notification.
\<close>

theorem C4_active_inactive_separation:
  "(formatAppName env (target_name to) \<in> set (getActiveApps env (world st)) \<longrightarrow>
      filter is_real_history (push_effects env to st) = [] \<and>
      filter is_real_history (replace_effects env to st) = [])
   \<and>
   (formatAppName env (target_name to) \<notin> set (getActiveApps env (world st)) \<longrightarrow>
      filter is_virtual_history (push_effects env to st) = [] \<and>
      filter is_notification (push_effects env to st) = [] \<and>
      filter is_virtual_history (replace_effects env to st) = [] \<and>
      filter is_notification (replace_effects env to st) = [])"
proof -
  have "\<And>r. \<exists>es. new_effects st (state_of (createNavigationMethod env r to st)) = es
     \<and> (formatAppName env (target_name to) \<in> set (getActiveApps env (world st))
          \<longrightarrow> (\<forall>e \<in> set es. \<not> is_real_history e))
     \<and> (formatAppName env (target_name to) \<notin> set (getActiveApps env (world st))
          \<longrightarrow> (\<forall>e \<in> set es. \<not> is_virtual_history e \<and> \<not> is_notification e))"
    using nav_effects_extend [of env _ to st] by (metis new_effects_append)
  then show ?thesis
    by (simp add: push_effects_def replace_effects_def router_push_def router_replace_def
        filter_empty_conv)
qed


theorem C4_active_inactive_separation_witness:
  "formatAppName host_env (target_name (request ''A'' ''/b'' JUndefined))
     \<in> set (getActiveApps host_env (world (initial_state host_world)))
   \<and> filter is_real_history (push_effects host_env (request ''A'' ''/b'' JUndefined) (initial_state host_world)) = []
   \<and> formatAppName host_env (target_name (request ''B'' ''/home'' JUndefined))
     \<notin> set (getActiveApps host_env (world (initial_state host_world)))
   \<and> filter is_virtual_history (replace_effects host_env (request ''B'' ''/home'' JUndefined) (initial_state host_world)) = []"
  using C4_active_inactive_separation [of host_env "request ''A'' ''/b'' JUndefined" "initial_state host_world"]
   C4_active_inactive_separation [of host_env "request ''B'' ''/home'' JUndefined" "initial_state host_world"]
  by (simp add: host_env_def request_def initial_state_def host_world_def filter_empty_conv)


section \<open>Facts about the guard pipeline\<close>

lemma expected_Nil [simp]: "expected_invocations a to frm [] = []"
  by (simp add: expected_invocations_def)

lemma expected_Cons [simp]:
  "expected_invocations a to frm (g # gs) =
     (case guard_invocation a to frm g of None \<Rightarrow> expected_invocations a to frm gs
      | Some i \<Rightarrow> i # expected_invocations a to frm gs)"
  by (simp add: expected_invocations_def split: option.splits)

lemma expected_Cons_append:
  "expected_invocations a to frm (g # gs) =
     (case guard_invocation a to frm g of None \<Rightarrow> [] | Some i \<Rightarrow> [i])
       @ expected_invocations a to frm gs"
  by (simp split: option.splits)

lemma invocations_Cons_append: "invocations (c # es) = invocations [c] @ invocations es"
  by (cases c) simp_all

lemma observed_Cons_append: "observed b (c # es) = observed b [c] @ observed b es"
  by (cases c) simp_all

lemma runGuards_step:
  "runGuards env a to frm (g # gs) st =
     (case guard_step env a to frm g (current st) of
        None \<Rightarrow> runGuards env a to frm gs st
      | Some (c, None) \<Rightarrow> runGuards env a to frm gs (st\<lparr>effects := effects st @ [c]\<rparr>)
      | Some (c, Some e) \<Rightarrow> Thrown e (st\<lparr>effects := effects st @ [c]\<rparr>))"
  by (cases g)
     (auto simp: guard_step_def invoke_def call_property_def Let_def
        split: option.splits property.splits js_value.splits)

lemma guard_step_None:
  "guard_step env a to frm g led = None \<Longrightarrow> guard_invocation a to frm g = None"
  by (cases g)
     (auto simp: guard_step_def split: option.splits property.splits js_value.splits if_splits)

lemma guard_step_Some:
  "guard_step env a to frm g led = Some (c, r) \<Longrightarrow>
     invocations [c] = (case guard_invocation a to frm g of None \<Rightarrow> [] | Some i \<Rightarrow> [i])
     \<and> filter (\<lambda>l. l \<noteq> led b) (observed b [c]) = []"
  by (cases g)
     (auto simp: guard_step_def split: option.splits property.splits js_value.splits if_splits)

lemma runGuards_frame:
  "current (state_of (runGuards env a to frm gs st)) = current st
   \<and> world (state_of (runGuards env a to frm gs st)) = world st
   \<and> beforeGuards (state_of (runGuards env a to frm gs st)) = beforeGuards st
   \<and> afterGuards (state_of (runGuards env a to frm gs st)) = afterGuards st
   \<and> idleQueue (state_of (runGuards env a to frm gs st)) = idleQueue st"
proof (induction gs arbitrary: st)
  case Nil
  show ?case by simp
next
  case (Cons g gs)
  show ?case
  proof (cases "guard_step env a to frm g (current st)")
    case None
    then show ?thesis using Cons [of st] by (simp add: runGuards_step del: runGuards.simps(2))
  next
    case (Some cr)
    obtain c r where cr: "cr = (c, r)" by (cases cr)
    show ?thesis
    proof (cases r)
      case None
      then show ?thesis
        using Some cr Cons [of "st\<lparr>effects := effects st @ [c]\<rparr>"] by (simp add: runGuards_step del: runGuards.simps(2))
    next
      case (Some e)
      then show ?thesis using \<open>guard_step env a to frm g (current st) = Some cr\<close> cr
        by (simp add: runGuards_step del: runGuards.simps(2))
    qed
  qed
qed

lemma runGuards_effects:
  "\<exists>es. effects (state_of (runGuards env a to frm gs st)) = effects st @ es
      \<and> prefix (invocations es) (expected_invocations a to frm gs)
      \<and> filter (\<lambda>l. l \<noteq> current st b) (observed b es) = []
      \<and> (has_returned (runGuards env a to frm gs st)
            \<longrightarrow> invocations es = expected_invocations a to frm gs)"
proof (induction gs arbitrary: st)
  case Nil
  show ?case by simp
next
  case (Cons g gs)
  show ?case
  proof (cases "guard_step env a to frm g (current st)")
    case None
    then have "guard_invocation a to frm g = None" by (rule guard_step_None)
    then show ?thesis using None Cons [of st] by (simp add: runGuards_step del: runGuards.simps(2))
  next
    case step: (Some cr)
    obtain c r where cr: "cr = (c, r)" by (cases cr)
    have c: "invocations [c]
               = (case guard_invocation a to frm g of None \<Rightarrow> [] | Some i \<Rightarrow> [i])"
      "filter (\<lambda>l. l \<noteq> current st b) (observed b [c]) = []"
      using guard_step_Some [of env a to frm g "current st" c r b] step cr by simp_all
    show ?thesis
    proof (cases r)
      case None
      define st1 where "st1 = st\<lparr>effects := effects st @ [c]\<rparr>"
      have run: "runGuards env a to frm (g # gs) st = runGuards env a to frm gs st1"
        using step cr None by (simp add: runGuards_step st1_def del: runGuards.simps(2))
      from Cons [of st1] obtain es where es:
        "effects (state_of (runGuards env a to frm gs st1)) = effects st1 @ es"
        "prefix (invocations es) (expected_invocations a to frm gs)"
        "filter (\<lambda>l. l \<noteq> current st1 b) (observed b es) = []"
        "has_returned (runGuards env a to frm gs st1)
            \<longrightarrow> invocations es = expected_invocations a to frm gs"
        by blast
      have "effects (state_of (runGuards env a to frm (g # gs) st)) = effects st @ (c # es)"
        unfolding run using es(1) by (simp add: st1_def)
      moreover have "prefix (invocations (c # es)) (expected_invocations a to frm (g # gs))"
        using es(2) c(1)
        by (simp only: invocations_Cons_append [of c es] expected_Cons_append same_prefix_prefix)
      moreover have "filter (\<lambda>l. l \<noteq> current st b) (observed b (c # es)) = []"
        using es(3) c(2) by (simp add: observed_Cons_append [of b c es] st1_def)
      moreover have "has_returned (runGuards env a to frm (g # gs) st)
            \<longrightarrow> invocations (c # es) = expected_invocations a to frm (g # gs)"
        using es(4) c(1)
        by (simp only: run invocations_Cons_append [of c es] expected_Cons_append) simp
      ultimately show ?thesis by blast
    next
      case (Some e)
      have run: "runGuards env a to frm (g # gs) st = Thrown e (st\<lparr>effects := effects st @ [c]\<rparr>)"
        using step cr Some by (simp add: runGuards_step del: runGuards.simps(2))
      have "prefix (invocations [c]) (expected_invocations a to frm (g # gs))"
        using c(1) by (simp only: expected_Cons_append prefixI)
      then show ?thesis unfolding run using c(2) by simp
    qed
  qed
qed

lemma inherited_calls_Cons_append:
  "inherited_calls (c # es) = inherited_calls [c] @ inherited_calls es"
  by (cases c) simp_all

lemma guard_step_own:
  assumes "a \<notin> set object_prototype_functions"
    and "guard_step env a to frm g led = Some (c, r)"
  shows "inherited_calls [c] = []
         \<and> (\<exists>i. guard_invocation a to frm g = Some i \<and> (r \<noteq> None \<longrightarrow> guard_raises env (fst i)))"
  using assms
  by (cases g)
     (auto simp: guard_step_def split: option.splits property.splits js_value.splits if_splits)

lemma runGuards_own_entries:
  assumes own: "a \<notin> set object_prototype_functions"
  shows "\<exists>es. effects (state_of (runGuards env a to frm gs st)) = effects st @ es
      \<and> inherited_calls es = []
      \<and> ((\<forall>i \<in> set (expected_invocations a to frm gs). \<not> guard_raises env (fst i))
            \<longrightarrow> has_returned (runGuards env a to frm gs st))"
proof (induction gs arbitrary: st)
  case Nil
  show ?case by simp
next
  case (Cons g gs)
  show ?case
  proof (cases "guard_step env a to frm g (current st)")
    case None
    then have "guard_invocation a to frm g = None" by (rule guard_step_None)
    then show ?thesis
      using None Cons [of st] by (simp add: runGuards_step del: runGuards.simps(2))
  next
    case step: (Some cr)
    obtain c r where cr: "cr = (c, r)" by (cases cr)
    from guard_step_own [OF own, of env to frm g "current st" c r] step cr
    obtain i where c: "inherited_calls [c] = []" "guard_invocation a to frm g = Some i"
      "r \<noteq> None \<longrightarrow> guard_raises env (fst i)"
      by auto
    show ?thesis
    proof (cases r)
      case None
      define st1 where "st1 = st\<lparr>effects := effects st @ [c]\<rparr>"
      have run: "runGuards env a to frm (g # gs) st = runGuards env a to frm gs st1"
        using step cr None by (simp add: runGuards_step st1_def del: runGuards.simps(2))
      from Cons [of st1] obtain es where es:
        "effects (state_of (runGuards env a to frm gs st1)) = effects st1 @ es"
        "inherited_calls es = []"
        "(\<forall>i \<in> set (expected_invocations a to frm gs). \<not> guard_raises env (fst i))
            \<longrightarrow> has_returned (runGuards env a to frm gs st1)"
        by blast
      have "effects (state_of (runGuards env a to frm (g # gs) st)) = effects st @ (c # es)"
        unfolding run using es(1) by (simp add: st1_def)
      moreover have "inherited_calls (c # es) = []"
        using es(2) c(1) by (simp add: inherited_calls_Cons_append [of c es])
      moreover have "(\<forall>i \<in> set (expected_invocations a to frm (g # gs)). \<not> guard_raises env (fst i))
            \<longrightarrow> has_returned (runGuards env a to frm (g # gs) st)"
        unfolding run using es(3) c(2) by simp
      ultimately show ?thesis by blast
    next
      case (Some e)
      have run: "runGuards env a to frm (g # gs) st = Thrown e (st\<lparr>effects := effects st @ [c]\<rparr>)"
        using step cr Some by (simp add: runGuards_step del: runGuards.simps(2))
      have "guard_raises env (fst i)" using c(3) Some by simp
      then show ?thesis unfolding run using c(1) c(2) by auto
    qed
  qed
qed

lemma requestIdleCallback_fields [simp]:
  "effects (requestIdleCallback t st) = effects st"
  "world (requestIdleCallback t st) = world st"
  "current (requestIdleCallback t st) = current st"
  "beforeGuards (requestIdleCallback t st) = beforeGuards st"
  "afterGuards (requestIdleCallback t st) = afterGuards st"
  "idleQueue (requestIdleCallback t st) = idleQueue st @ [t]"
  by (simp_all add: requestIdleCallback_def)

lemma executeNavigationGuard_unfold:
  "executeNavigationGuard env a to frm st =
     (case runGuards env a to frm (beforeGuards st) (st\<lparr>current := (current st)(a \<mapsto> to)\<rparr>) of
        Thrown e st2 \<Rightarrow> Thrown e st2
      | Returned st2 \<Rightarrow> Returned (requestIdleCallback (AfterGuardsTask a to frm) st2))"
  by (simp add: executeNavigationGuard_def Let_def)

lemma executeNavigationGuard_frame:
  "current (state_of (executeNavigationGuard env a to frm st)) = (current st)(a \<mapsto> to)
   \<and> world (state_of (executeNavigationGuard env a to frm st)) = world st
   \<and> beforeGuards (state_of (executeNavigationGuard env a to frm st)) = beforeGuards st
   \<and> afterGuards (state_of (executeNavigationGuard env a to frm st)) = afterGuards st
   \<and> idleQueue (state_of (executeNavigationGuard env a to frm st))
       = (if has_returned (executeNavigationGuard env a to frm st)
          then idleQueue st @ [AfterGuardsTask a to frm] else idleQueue st)"
  using runGuards_frame [of env a to frm "beforeGuards st" "st\<lparr>current := (current st)(a \<mapsto> to)\<rparr>"]
  by (cases "runGuards env a to frm (beforeGuards st) (st\<lparr>current := (current st)(a \<mapsto> to)\<rparr>)")
     (simp_all add: executeNavigationGuard_unfold)

lemma executeNavigationGuard_effects:
  "\<exists>es. effects (state_of (executeNavigationGuard env a to frm st)) = effects st @ es
      \<and> prefix (invocations es) (expected_invocations a to frm (beforeGuards st))
      \<and> filter (\<lambda>l. l \<noteq> Some to) (observed a es) = []
      \<and> (has_returned (executeNavigationGuard env a to frm st)
            \<longrightarrow> invocations es = expected_invocations a to frm (beforeGuards st))"
  using runGuards_effects [of env a to frm "beforeGuards st" "st\<lparr>current := (current st)(a \<mapsto> to)\<rparr>" a]
  by (cases "runGuards env a to frm (beforeGuards st) (st\<lparr>current := (current st)(a \<mapsto> to)\<rparr>)")
     (simp_all add: executeNavigationGuard_unfold)

lemma run_idle_callback_task:
  "idleQueue st = AfterGuardsTask a to frm # rest \<Longrightarrow>
     run_idle_callback env st = runGuards env a to frm (afterGuards st) (st\<lparr>idleQueue := rest\<rparr>)"
  by (simp add: run_idle_callback_def)

lemma runGuards_reads:
  assumes "effects st2 = effects st" "current st2 = current st"
  shows "effects (state_of (runGuards env a to frm gs st2))
           = effects (state_of (runGuards env a to frm gs st))
         \<and> has_returned (runGuards env a to frm gs st2)
           = has_returned (runGuards env a to frm gs st)"
  using assms
proof (induction gs arbitrary: st st2)
  case Nil
  then show ?case by simp
next
  case (Cons g gs)
  show ?case
  proof (cases "guard_step env a to frm g (current st)")
    case None
    then show ?thesis using Cons.prems Cons.IH [of st2 st] by (simp add: runGuards_step del: runGuards.simps(2))
  next
    case (Some cr)
    obtain c r where cr: "cr = (c, r)" by (cases cr)
    show ?thesis
    proof (cases r)
      case None
      then show ?thesis
        using Some cr Cons.prems
          Cons.IH [of "st2\<lparr>effects := effects st2 @ [c]\<rparr>" "st\<lparr>effects := effects st @ [c]\<rparr>"]
        by (simp add: runGuards_step del: runGuards.simps(2))
    next
      case (Some e)
      then show ?thesis
        using \<open>guard_step env a to frm g (current st) = Some cr\<close> cr Cons.prems
        by (simp add: runGuards_step del: runGuards.simps(2))
    qed
  qed
qed

lemma executeNavigationGuard_afterGuards:
  "effects (state_of (executeNavigationGuard env a to frm (st\<lparr>afterGuards := ags\<rparr>)))
     = effects (state_of (executeNavigationGuard env a to frm st))"
proof -
  let ?s2 = "st\<lparr>afterGuards := ags, current := (current st)(a \<mapsto> to)\<rparr>"
  let ?s = "st\<lparr>current := (current st)(a \<mapsto> to)\<rparr>"
  have "effects (state_of (runGuards env a to frm (beforeGuards st) ?s2))
           = effects (state_of (runGuards env a to frm (beforeGuards st) ?s))
         \<and> has_returned (runGuards env a to frm (beforeGuards st) ?s2)
           = has_returned (runGuards env a to frm (beforeGuards st) ?s)"
    by (rule runGuards_reads) simp_all
  then show ?thesis
    by (cases "runGuards env a to frm (beforeGuards st) ?s2";
        cases "runGuards env a to frm (beforeGuards st) ?s")
       (simp_all add: executeNavigationGuard_unfold)
qed

lemma nav_current:
  "current (state_of (createNavigationMethod env r to st)) = current st"
  by (auto simp: createNavigationMethod_def navigate_active_def navigate_inactive_def Let_def
      split: option.splits sum.splits)

lemma run_idle_callback_current:
  "current (state_of (run_idle_callback env st)) = current st"
proof (cases "idleQueue st")
  case Nil
  then show ?thesis by (simp add: run_idle_callback_def)
next
  case (Cons t rest)
  obtain a to frm where "t = AfterGuardsTask a to frm" by (cases t)
  then show ?thesis
    using Cons runGuards_frame [of env a to frm "afterGuards st" "st\<lparr>idleQueue := rest\<rparr>"]
    by (simp add: run_idle_callback_def)
qed

lemma call_unregister_current: "current (call_unregister u st) = current st"
  by (cases "(u, st)" rule: call_unregister.cases) simp_all

lemma run_op_keeps_absent:
  assumes "current st a = None" "\<not> writes_entry a op"
  shows "current (run_op env op st) a = None"
proof (cases op)
  case (ExecuteNavigationGuard b to frm)
  then show ?thesis using assms by (simp add: executeNavigationGuard_frame)
qed (use assms in \<open>simp_all add: router_push_def router_replace_def nav_current
       clearCurrentWhenUnmount_def beforeEach_def afterEach_def call_unregister_current
       run_idle_callback_current\<close>)

lemma run_ops_keep_absent:
  assumes "current st a = None" "\<forall>op \<in> set ops. \<not> writes_entry a op"
  shows "current (run_ops env ops st) a = None"
  using assms
proof (induction ops arbitrary: st)
  case Nil
  then show ?case by simp
next
  case (Cons op ops)
  then show ?case by (simp add: run_op_keeps_absent)
qed

lemma callbacks_add_idem: "callbacks_add g (callbacks_add g gs) = callbacks_add g gs"
  by (simp add: callbacks_add_def)

lemma callbacks_add_distinct: "distinct gs \<Longrightarrow> distinct (callbacks_add g gs)"
  by (simp add: callbacks_add_def)

lemma callbacks_add_member: "g \<in> set (callbacks_add g gs)"
  by (simp add: callbacks_add_def)

lemma count_expected_global:
  "length (filter ((=) (n, GlobalArgs a to frm)) (expected_invocations a to frm gs))
     = count_list gs (JFunction n)"
proof (induction gs)
  case Nil
  show ?case by simp
next
  case (Cons g gs)
  show ?case
  proof (cases g)
    case (JObject r ps)
    then show ?thesis using Cons by (auto split: option.splits js_value.splits)
  qed (use Cons in auto)
qed

lemma prefix_filter_length:
  "prefix xs ys \<Longrightarrow> length (filter P xs) \<le> length (filter P ys)"
  by (auto simp: prefix_def)

lemma distinct_count_le_1: "distinct gs \<Longrightarrow> count_list gs g \<le> 1"
  by (induction gs) auto

lemma runGuards_global_once:
  assumes "distinct gs"
  shows "length (filter ((=) (n, GlobalArgs a to frm))
            (invocations (new_effects st (state_of (runGuards env a to frm gs st))))) \<le> 1"
proof -
  obtain es where es: "effects (state_of (runGuards env a to frm gs st)) = effects st @ es"
    "prefix (invocations es) (expected_invocations a to frm gs)"
    using runGuards_effects [of env a to frm gs st a] by blast
  have "length (filter ((=) (n, GlobalArgs a to frm)) (invocations es))
          \<le> count_list gs (JFunction n)"
    using prefix_filter_length [OF es(2), of "(=) (n, GlobalArgs a to frm)"]
    by (simp add: count_expected_global)
  also have "\<dots> \<le> 1" using assms by (rule distinct_count_le_1)
  finally show ?thesis using es(1) by simp
qed

lemma host_guard_raises: "guard_raises host_env n = (n = 13)"
  by (simp add: host_env_def)

lemma guarded_state_fields:
  "beforeGuards guarded_state = [JFunction 1, JObject 7 [(''A'', JFunction 2)], JObject 8 [(''B'', JFunction 3)]]"
  "afterGuards guarded_state = [JFunction 4]"
  "idleQueue guarded_state = []"
  "effects guarded_state = []"
  "current guarded_state = (\<lambda>a. None)"
  by (simp_all add: guarded_state_def beforeEach_def afterEach_def callbacks_add_def initial_state_def)

lemma empty_keyed_state_fields:
  "beforeGuards empty_keyed_state = [JObject 9 [], JFunction 1]"
  "afterGuards empty_keyed_state = [JFunction 4]"
  "idleQueue empty_keyed_state = []"
  "effects empty_keyed_state = []"
  "current empty_keyed_state = (\<lambda>a. None)"
  by (simp_all add: empty_keyed_state_def beforeEach_def afterEach_def callbacks_add_def
      initial_state_def)

lemma guarded_navigation:
  "executeNavigationGuard host_env ''A'' loc_b loc_a guarded_state =
     Returned (guarded_state
       \<lparr>current := (\<lambda>a. None)(''A'' \<mapsto> loc_b),
        effects := [GuardCall 1 (GlobalArgs ''A'' loc_b loc_a) ((\<lambda>a. None)(''A'' \<mapsto> loc_b)),
                    GuardCall 2 (KeyedArgs loc_b loc_a) ((\<lambda>a. None)(''A'' \<mapsto> loc_b))],
        idleQueue := [AfterGuardsTask ''A'' loc_b loc_a]\<rparr>)"
  by (simp add: executeNavigationGuard_def guarded_state_fields invoke_def call_property_def
      object_prototype_functions_def host_guard_raises Let_def requestIdleCallback_def)

section \<open>The ledger is written first\<close>

text \<open>
  C5. Whatever \<open>appName\<close>, \<open>to\<close> and \<open>from\<close>: once
  \<^verbatim>\<open>executeNavigationGuard(appName, to, from)\<close> is over, the ledger holds \<open>to\<close> at
  \<open>appName\<close>; and the write comes before the before-guards, so that every guard entered
  during the call finds \<open>to\<close> at \<open>appName\<close> when it reads the ledger (one reading for
  each invocation).
\<close>

theorem C5_ledger_written_before_guards:
  "current (state_of (executeNavigationGuard env a to frm st)) a = Some to
   \<and> filter (\<lambda>l. l \<noteq> Some to)
        (observed a (new_effects st (state_of (executeNavigationGuard env a to frm st)))) = []
   \<and> length (observed a (new_effects st (state_of (executeNavigationGuard env a to frm st))))
       = length (invocations (new_effects st (state_of (executeNavigationGuard env a to frm st))))"
proof -
  obtain es where es: "effects (state_of (executeNavigationGuard env a to frm st)) = effects st @ es"
    "filter (\<lambda>l. l \<noteq> Some to) (observed a es) = []"
    using executeNavigationGuard_effects [of env a to frm st] by blast
  have len: "\<And>xs. length (observed a xs) = length (invocations xs)"
  proof -
    fix xs show "length (observed a xs) = length (invocations xs)"
      by (induction xs rule: invocations.induct) simp_all
  qed
  show ?thesis using es len by (simp add: executeNavigationGuard_frame)
qed

theorem C5_ledger_written_before_guards_witness:
  "current (state_of (executeNavigationGuard host_env ''A'' loc_b loc_a guarded_state)) ''A'' = Some loc_b
   \<and> observed ''A'' (new_effects guarded_state
        (state_of (executeNavigationGuard host_env ''A'' loc_b loc_a guarded_state)))
      = [Some loc_b, Some loc_b]"
  using C5_ledger_written_before_guards [of host_env "''A''" loc_b loc_a guarded_state]
  by (simp add: guarded_navigation new_effects_def guarded_state_fields)

section \<open>Before-guards, in registration order\<close>

text \<open>
  C6. The claim: the before-guards are invoked in registration order, a function guard with
  \<open>(appName, to, from)\<close>, a keyed guard only if it has an entry for \<open>appName\<close>, with
  \<open>(to, from)\<close>. Lines 122 and 123 read \<^verbatim>\<open>guard[appName]\<close> through the prototype chain,
  and here the code departs from it. With the keyed guard \<^verbatim>\<open>{}\<close> registered before the
  function guard 1: for the application named \<^verbatim>\<open>valueOf\<close> the keyed guard, which has no
  entry, is called all the same (the inherited \<^verbatim>\<open>Object.prototype.valueOf\<close>), and then
  function 1; for the application named \<^verbatim>\<open>__defineGetter__\<close> the inherited function
  throws a \<^verbatim>\<open>TypeError\<close>, function 1 is never called, and the after-guards are not
  queued.
\<close>

theorem C6_keyed_guard_without_entry_called:
  "guard_invocation ''valueOf'' loc_b loc_a (JObject 9 []) = None
   \<and> inherited_calls (new_effects empty_keyed_state
         (state_of (executeNavigationGuard host_env ''valueOf'' loc_b loc_a empty_keyed_state)))
       = [(''valueOf'', KeyedArgs loc_b loc_a)]
   \<and> invocations (new_effects empty_keyed_state
         (state_of (executeNavigationGuard host_env ''valueOf'' loc_b loc_a empty_keyed_state)))
       = [(1, GlobalArgs ''valueOf'' loc_b loc_a)]
   \<and> guard_invocation ''__defineGetter__'' loc_b loc_a (JObject 9 []) = None
   \<and> expected_invocations ''__defineGetter__'' loc_b loc_a (beforeGuards empty_keyed_state)
       = [(1, GlobalArgs ''__defineGetter__'' loc_b loc_a)]
   \<and> executeNavigationGuard host_env ''__defineGetter__'' loc_b loc_a empty_keyed_state
       = Thrown TypeError
           (empty_keyed_state
              \<lparr>current := (\<lambda>a. None)(''__defineGetter__'' \<mapsto> loc_b),
               effects := [InheritedCall ''__defineGetter__'' (KeyedArgs loc_b loc_a)]\<rparr>)
   \<and> invocations (new_effects empty_keyed_state
         (state_of (executeNavigationGuard host_env ''__defineGetter__'' loc_b loc_a
            empty_keyed_state)))
       = []
   \<and> idleQueue (state_of (executeNavigationGuard host_env ''__defineGetter__'' loc_b loc_a
         empty_keyed_state))
       = []"
  by (simp add: executeNavigationGuard_def empty_keyed_state_fields invoke_def call_property_def
      object_prototype_functions_def inherited_throws_def host_guard_raises Let_def
      requestIdleCallback_def new_effects_def)

section \<open>Ledger, before-guards, then after-guards\<close>

text \<open>
  C7. For a navigation that \<^verbatim>\<open>executeNavigationGuard\<close> carries through: the ledger holds
  the new location when each before-guard is entered; the guard functions called before it
  returns are exactly those of the before-guards, and the calls made are the same whatever
  the after-guards are; the after-guards are not run but queued, as the last idle callback;
  and when that callback runs (here with no other callback queued before it) its calls come
  after all those of the synchronous phase and are those of the after-guards, in registration
  order.
\<close>

theorem C7_ledger_then_before_then_after:
  assumes "executeNavigationGuard env a to frm st = Returned st'"
  shows "current st' a = Some to
   \<and> filter (\<lambda>l. l \<noteq> Some to) (observed a (new_effects st st')) = []
   \<and> invocations (new_effects st st') = expected_invocations a to frm (beforeGuards st)
   \<and> effects (state_of (executeNavigationGuard env a to frm (st\<lparr>afterGuards := ags\<rparr>))) = effects st'
   \<and> idleQueue st' = idleQueue st @ [AfterGuardsTask a to frm]
   \<and> (idleQueue st = [] \<longrightarrow>
        prefix (effects st') (effects (state_of (run_idle_callback env st')))
        \<and> prefix (invocations (new_effects st' (state_of (run_idle_callback env st'))))
                 (expected_invocations a to frm (afterGuards st))
        \<and> (has_returned (run_idle_callback env st') \<longrightarrow>
              invocations (new_effects st' (state_of (run_idle_callback env st')))
                = expected_invocations a to frm (afterGuards st)))"
proof -
  have ret: "has_returned (executeNavigationGuard env a to frm st)"
    and st': "state_of (executeNavigationGuard env a to frm st) = st'"
    using assms by simp_all
  obtain es where es: "effects st' = effects st @ es"
    "filter (\<lambda>l. l \<noteq> Some to) (observed a es) = []"
    "invocations es = expected_invocations a to frm (beforeGuards st)"
    using executeNavigationGuard_effects [of env a to frm st] ret st' by auto
  have frame: "current st' = (current st)(a \<mapsto> to)" "afterGuards st' = afterGuards st"
    "idleQueue st' = idleQueue st @ [AfterGuardsTask a to frm]"
    using executeNavigationGuard_frame [of env a to frm st] ret st' by simp_all
  have indep: "effects (state_of (executeNavigationGuard env a to frm (st\<lparr>afterGuards := ags\<rparr>))) = effects st'"
    using executeNavigationGuard_afterGuards [where env = env and st = st and ags = ags] st' by simp
  have later: "idleQueue st = [] \<longrightarrow>
        prefix (effects st') (effects (state_of (run_idle_callback env st')))
        \<and> prefix (invocations (new_effects st' (state_of (run_idle_callback env st'))))
                 (expected_invocations a to frm (afterGuards st))
        \<and> (has_returned (run_idle_callback env st') \<longrightarrow>
              invocations (new_effects st' (state_of (run_idle_callback env st')))
                = expected_invocations a to frm (afterGuards st))"
  proof
    assume empty: "idleQueue st = []"
    then have q: "idleQueue st' = AfterGuardsTask a to frm # []" using frame by simp
    have run: "run_idle_callback env st' = runGuards env a to frm (afterGuards st) (st'\<lparr>idleQueue := []\<rparr>)"
      using run_idle_callback_task [OF q] frame by simp
    obtain es2 where es2:
      "effects (state_of (runGuards env a to frm (afterGuards st) (st'\<lparr>idleQueue := []\<rparr>)))
         = effects (st'\<lparr>idleQueue := []\<rparr>) @ es2"
      "prefix (invocations es2) (expected_invocations a to frm (afterGuards st))"
      "has_returned (runGuards env a to frm (afterGuards st) (st'\<lparr>idleQueue := []\<rparr>))
            \<longrightarrow> invocations es2 = expected_invocations a to frm (afterGuards st)"
      using runGuards_effects [of env a to frm "afterGuards st" "st'\<lparr>idleQueue := []\<rparr>" a] by blast
    have "new_effects st' (state_of (run_idle_callback env st')) = es2"
      using es2(1) by (simp add: run)
    then show "prefix (effects st') (effects (state_of (run_idle_callback env st')))
        \<and> prefix (invocations (new_effects st' (state_of (run_idle_callback env st'))))
                 (expected_invocations a to frm (afterGuards st))
        \<and> (has_returned (run_idle_callback env st') \<longrightarrow>
              invocations (new_effects st' (state_of (run_idle_callback env st')))
                = expected_invocations a to frm (afterGuards st))"
      using es2 by (simp add: run)
  qed
  show ?thesis using es frame indep later by simp
qed

theorem C7_ledger_then_before_then_after_witness:
  "executeNavigationGuard host_env ''A'' loc_b loc_a guarded_state
     = Returned (state_of (executeNavigationGuard host_env ''A'' loc_b loc_a guarded_state))
   \<and> idleQueue guarded_state = []
   \<and> invocations (new_effects guarded_state
        (state_of (executeNavigationGuard host_env ''A'' loc_b loc_a guarded_state)))
      = [(1, GlobalArgs ''A'' loc_b loc_a), (2, KeyedArgs loc_b loc_a)]
   \<and> idleQueue (state_of (executeNavigationGuard host_env ''A'' loc_b loc_a guarded_state))
      = [AfterGuardsTask ''A'' loc_b loc_a]
   \<and> invocations (new_effects
        (state_of (executeNavigationGuard host_env ''A'' loc_b loc_a guarded_state))
        (state_of (run_idle_callback host_env
           (state_of (executeNavigationGuard host_env ''A'' loc_b loc_a guarded_state)))))
      = [(4, GlobalArgs ''A'' loc_b loc_a)]"
proof -
  have r: "executeNavigationGuard host_env ''A'' loc_b loc_a guarded_state
     = Returned (state_of (executeNavigationGuard host_env ''A'' loc_b loc_a guarded_state))"
    by (simp add: guarded_navigation)
  have idle: "has_returned (run_idle_callback host_env
           (state_of (executeNavigationGuard host_env ''A'' loc_b loc_a guarded_state)))"
    by (simp add: guarded_navigation run_idle_callback_def guarded_state_fields invoke_def
        host_guard_raises Let_def)
  show ?thesis
    using C7_ledger_then_before_then_after [OF r, of "[]"] r idle
    by (simp add: guarded_state_fields)
qed

section \<open>Unmounting\<close>

text \<open>
  C8. After \<^verbatim>\<open>clearCurrentWhenUnmount(appName)\<close> the ledger has no entry for
  \<open>appName\<close>; it has none either after any further operations of the router other than
  \<^verbatim>\<open>executeNavigationGuard\<close> for that name, so the next
  \<^verbatim>\<open>executeNavigationGuard\<close> for it starts from an absent entry; and that call creates
  the entry.
\<close>

theorem C8_unmount_clears_entry:
  "current (clearCurrentWhenUnmount a st) a = None
   \<and> ((\<forall>op \<in> set ops. \<not> writes_entry a op) \<longrightarrow>
        current (run_ops env ops (clearCurrentWhenUnmount a st)) a = None)
   \<and> current (state_of (executeNavigationGuard env a to frm
                (run_ops env ops (clearCurrentWhenUnmount a st)))) a = Some to"
proof -
  have "current (clearCurrentWhenUnmount a st) a = None"
    by (simp add: clearCurrentWhenUnmount_def)
  then show ?thesis
    using run_ops_keep_absent [of "clearCurrentWhenUnmount a st" a ops env]
    by (simp add: executeNavigationGuard_frame)
qed

theorem C8_unmount_clears_entry_witness:
  "current (state_of (executeNavigationGuard host_env ''A'' loc_a loc_a guarded_state)) ''A'' = Some loc_a
   \<and> current (run_ops host_env
        [Push (request ''A'' ''/b'' JUndefined), ExecuteNavigationGuard ''B'' loc_b loc_a,
         BeforeEach (JFunction 5), IdleCallback, ClearCurrentWhenUnmount ''B'']
        (clearCurrentWhenUnmount ''A''
           (state_of (executeNavigationGuard host_env ''A'' loc_a loc_a guarded_state)))) ''A'' = None"
  using C8_unmount_clears_entry [of "''A''"
      "state_of (executeNavigationGuard host_env ''A'' loc_a loc_a guarded_state)"
      "[Push (request ''A'' ''/b'' JUndefined), ExecuteNavigationGuard ''B'' loc_b loc_a,
         BeforeEach (JFunction 5), IdleCallback, ClearCurrentWhenUnmount ''B'']" host_env]
  by (simp add: executeNavigationGuard_frame)

section \<open>Registering a guard twice\<close>

text \<open>
  C9. \<^verbatim>\<open>beforeEach(guard)\<close> and \<^verbatim>\<open>afterEach(guard)\<close> put the guard into their set
  and return the function that takes it out again. Registering the same guard a second time
  changes nothing; in a set without repetition the guard then occurs once, and a function
  guard is called at most once, with \<open>(appName, to, from)\<close>, when the set is run for a
  navigation.
\<close>

theorem C9_registration_is_idempotent:
  "fst (beforeEach g st) = Unregister BeforeHook g
   \<and> fst (afterEach g st) = Unregister AfterHook g
   \<and> g \<in> set (beforeGuards (snd (beforeEach g st)))
   \<and> g \<in> set (afterGuards (snd (afterEach g st)))
   \<and> snd (beforeEach g (snd (beforeEach g st))) = snd (beforeEach g st)
   \<and> snd (afterEach g (snd (afterEach g st))) = snd (afterEach g st)
   \<and> g \<notin> set (beforeGuards (call_unregister (fst (beforeEach g st)) (snd (beforeEach g st))))
   \<and> g \<notin> set (afterGuards (call_unregister (fst (afterEach g st)) (snd (afterEach g st))))
   \<and> (distinct (beforeGuards st) \<longrightarrow>
        distinct (beforeGuards (snd (beforeEach g (snd (beforeEach g st)))))
        \<and> count_list (beforeGuards (snd (beforeEach g (snd (beforeEach g st))))) g = 1
        \<and> length (filter ((=) (n, GlobalArgs a to frm))
             (invocations (new_effects s (state_of
                (runGuards env a to frm
                   (beforeGuards (snd (beforeEach (JFunction n) (snd (beforeEach (JFunction n) st)))))
                   s))))) \<le> 1)
   \<and> (distinct (afterGuards st) \<longrightarrow>
        distinct (afterGuards (snd (afterEach g (snd (afterEach g st)))))
        \<and> count_list (afterGuards (snd (afterEach g (snd (afterEach g st))))) g = 1
        \<and> length (filter ((=) (n, GlobalArgs a to frm))
             (invocations (new_effects s (state_of
                (runGuards env a to frm
                   (afterGuards (snd (afterEach (JFunction n) (snd (afterEach (JFunction n) st)))))
                   s))))) \<le> 1)"
proof -
  have one: "\<And>gs. distinct gs \<Longrightarrow> count_list (callbacks_add g gs) g = 1"
  proof -
    fix gs :: "js_value list" assume d: "distinct gs"
    have "distinct (callbacks_add g gs)" using d by (rule callbacks_add_distinct)
    then have "count_list (callbacks_add g gs) g \<le> 1" by (rule distinct_count_le_1)
    moreover have "count_list (callbacks_add g gs) g \<noteq> 0"
      using callbacks_add_member [of g gs] by (simp add: count_list_0_iff)
    ultimately show "count_list (callbacks_add g gs) g = 1" by simp
  qed
  have once: "\<And>gs. distinct gs \<Longrightarrow>
      length (filter ((=) (n, GlobalArgs a to frm))
         (invocations (new_effects s (state_of
            (runGuards env a to frm (callbacks_add (JFunction n) gs) s))))) \<le> Suc 0"
    using runGuards_global_once [OF callbacks_add_distinct, of _ n a to frm s env "JFunction n"]
    by simp
  show ?thesis
    by (simp add: beforeEach_def afterEach_def callbacks_add_idem callbacks_add_member
        callbacks_add_distinct callbacks_delete_def one once)
qed

theorem C9_registration_is_idempotent_witness:
  "distinct (beforeGuards guarded_state) \<and> distinct (afterGuards guarded_state)
   \<and> beforeGuards (snd (beforeEach (JFunction 1) (snd (beforeEach (JFunction 1) guarded_state))))
       = [JFunction 1, JObject 7 [(''A'', JFunction 2)], JObject 8 [(''B'', JFunction 3)]]
   \<and> invocations (new_effects guarded_state (state_of
        (runGuards host_env ''A'' loc_b loc_a
           (beforeGuards (snd (beforeEach (JFunction 1) (snd (beforeEach (JFunction 1) guarded_state)))))
           guarded_state)))
       = [(1, GlobalArgs ''A'' loc_b loc_a), (2, KeyedArgs loc_b loc_a)]"
  using C9_registration_is_idempotent [of "JFunction 1" guarded_state 1 "''A''" loc_b loc_a guarded_state host_env]
  by (simp add: guarded_state_fields beforeEach_def callbacks_add_def invoke_def call_property_def
      object_prototype_functions_def host_guard_raises new_effects_def Let_def)

section \<open>Entries that are not guards\<close>

text \<open>
  C10. The claim: \<^verbatim>\<open>runGuards\<close> never fails on an entry that is neither a function nor a
  plain object holding a function at \<open>appName\<close>; in particular a keyed guard with no entry
  for the navigating application is ignored without error. The code departs from it at the
  same place as for C6: the keyed guard \<^verbatim>\<open>{}\<close> is not a function and holds nothing at
  \<^verbatim>\<open>__defineSetter__\<close>, yet for the application of that name line 123 calls the inherited
  \<^verbatim>\<open>Object.prototype.__defineSetter__\<close>, and \<^verbatim>\<open>runGuards\<close> ends with a
  \<^verbatim>\<open>TypeError\<close>.
\<close>

theorem C10_keyed_guard_without_entry_throws:
  "\<not> isFunction (JObject 9 [])
   \<and> map_of ([] :: (string \<times> js_value) list) ''__defineSetter__'' = None
   \<and> runGuards host_env ''__defineSetter__'' loc_b loc_a [JObject 9 []] (initial_state host_world)
       = Thrown TypeError
           ((initial_state host_world)
              \<lparr>effects := [InheritedCall ''__defineSetter__'' (KeyedArgs loc_b loc_a)]\<rparr>)"
  by (simp add: call_property_def object_prototype_functions_def inherited_throws_def Let_def
      initial_state_def)

end
